theory Spec2Isabelle
  imports Complex_Main "HOL-Library.Word"
begin

section \<open>JavaScript values used by the generators\<close>

text \<open>
  A JavaScript string is a sequence of UTF-16 code units; \<open>String.length\<close>,
  \<open>split('')\<close>, \<open>trim\<close> and the regular expression \<open>\s\<close> all work on code units.
\<close>

type_synonym code_unit = "16 word"
type_synonym jsstring = "code_unit list"

text \<open>
  Numbers, as far as the grid arithmetic meets them: the integers, \<open>+Infinity\<close> (a
  positive count divided by zero) and \<open>NaN\<close> (zero divided by zero). A Number is a
  double: \<open>Fin n\<close> is the double nearest to the integer \<open>n\<close>, which is \<open>n\<close> itself
  whenever \<open>|n| \<le> 2^53\<close> (and \<open>Infinity\<close> for an integer that rounds to \<open>2^1024\<close> or
  more, which only \<open>parseInt\<close> can meet). Fractional counts are not in the type.
\<close>

datatype jsnum = Fin int | PosInf | NaN

text \<open>The values a caller can pass where the code expects text or a grid count.\<close>

datatype jsval = JUndefined | JNull | JBool bool | JNum jsnum | JStr jsstring

text \<open>
  The white space of ECMAScript (WhiteSpace and LineTerminator): what \<open>\s\<close> matches
  and what \<open>String.prototype.trim\<close> and \<open>parseInt\<close> skip.
\<close>

definition isWhiteSpace :: "code_unit \<Rightarrow> bool" where
  "isWhiteSpace c \<longleftrightarrow>
     c = 0x09 \<or> c = 0x0A \<or> c = 0x0B \<or> c = 0x0C \<or> c = 0x0D \<or> c = 0x20 \<or> c = 0xA0 \<or>
     c = 0x1680 \<or> (0x2000 \<le> c \<and> c \<le> 0x200A) \<or> c = 0x2028 \<or> c = 0x2029 \<or>
     c = 0x202F \<or> c = 0x205F \<or> c = 0x3000 \<or> c = 0xFEFF"

text \<open>\<open>s.trim()\<close>: white space removed at both ends only.\<close>

definition trim :: "jsstring \<Rightarrow> jsstring" where
  "trim s = rev (dropWhile isWhiteSpace (rev (dropWhile isWhiteSpace s)))"

text \<open>\<open>s.replace(/\s+/g, '')\<close>: every run of white space removed.\<close>

definition stripWhitespace :: "jsstring \<Rightarrow> jsstring" where
  "stripWhitespace s = filter (\<lambda>c. \<not> isWhiteSpace c) s"

text \<open>
  \<open>text.replace(/\s+/g, '').split('').filter(char => char.trim())\<close>: the character
  stream, one single-unit string per code unit; a unit is kept when its trimmed form is
  a non-empty (truthy) string.
\<close>

definition splitCharacters :: "jsstring \<Rightarrow> jsstring list" where
  "splitCharacters text =
     filter (\<lambda>char. trim char \<noteq> []) (map (\<lambda>c. [c]) (stripWhitespace text))"

subsection \<open>Doubles\<close>

text \<open>
  An IEEE 754 binary64 value is a rational \<open>m * 2^e\<close> with \<open>|m| < 2^53\<close>, and every
  arithmetic operation of JavaScript returns the exact result rounded to the nearest
  such value, ties to the even significand. \<open>fl\<close> is this rounding for results in the
  normal range (no overflow to \<open>Infinity\<close>, no subnormal result), where all the numbers
  of the page geometry lie; a decimal literal of the source is the rounding of the
  rational it writes.
\<close>

text \<open>The number of binary digits of a natural number.\<close>

function bitLength :: "nat \<Rightarrow> nat" where
  "bitLength n = (if n = 0 then 0 else Suc (bitLength (n div 2)))"
  by pat_completeness auto
termination by (relation "measure id") auto

declare bitLength.simps [simp del]

text \<open>Rounding to the nearest integer, a tie going to the even one.\<close>

definition roundHalfEven :: "rat \<Rightarrow> int" where
  "roundHalfEven t =
     (let f = \<lfloor>t\<rfloor>; r = t - of_int f in
      if r < 1 / 2 then f else if 1 / 2 < r then f + 1 else if even f then f else f + 1)"

text \<open>
  The binary exponent of a number that is not zero: \<open>2^b \<le> |x| < 2^(b+1)\<close>. The bit
  lengths of numerator and denominator give it up to one, and a comparison decides.
\<close>

definition binadeExp :: "rat \<Rightarrow> int" where
  "binadeExp x =
     (let p = fst (quotient_of \<bar>x\<bar>); q = snd (quotient_of \<bar>x\<bar>);
          b = int (bitLength (nat p)) - int (bitLength (nat q)) in
      if 2 powi b \<le> \<bar>x\<bar> then b else b - 1)"

text \<open>The nearest double: 53 significant bits, the last one of weight \<open>2^(b-52)\<close>.\<close>

definition fl :: "rat \<Rightarrow> rat" where
  "fl x = (if x = 0 then 0
           else of_int (roundHalfEven (x / 2 powi (binadeExp x - 52))) * 2 powi (binadeExp x - 52))"

subsection \<open>parseInt and the clamps\<close>

text \<open>
  \<open>parseInt(v)\<close> with no radix: the value is converted to a string, leading white space
  is skipped, a sign is read, a \<open>0x\<close> prefix selects radix 16, and the longest prefix
  of digits is the result; no digit at all is \<open>NaN\<close>, here \<open>None\<close>. JavaScript
  rounds a numeral too long for a double; the callers clamp the result into a small
  range, which gives the same count for the exact integer.
\<close>

definition digitValue :: "code_unit \<Rightarrow> nat option" where
  "digitValue c =
     (if 0x30 \<le> c \<and> c \<le> 0x39 then Some (unat c - 0x30)
      else if 0x61 \<le> c \<and> c \<le> 0x7A then Some (unat c - 0x61 + 10)
      else if 0x41 \<le> c \<and> c \<le> 0x5A then Some (unat c - 0x41 + 10)
      else None)"

definition isDigitIn :: "nat \<Rightarrow> code_unit \<Rightarrow> bool" where
  "isDigitIn radix c = (case digitValue c of None \<Rightarrow> False | Some d \<Rightarrow> d < radix)"

definition digitsValue :: "nat \<Rightarrow> jsstring \<Rightarrow> int" where
  "digitsValue radix ds =
     foldl (\<lambda>acc c. case digitValue c of None \<Rightarrow> acc
                                         | Some d \<Rightarrow> acc * int radix + int d) 0 ds"

definition parseIntString :: "jsstring \<Rightarrow> int option" where
  "parseIntString s =
     (let s1 = dropWhile isWhiteSpace s;
          negative = (s1 \<noteq> [] \<and> hd s1 = 0x2D);
          s2 = (if s1 \<noteq> [] \<and> (hd s1 = 0x2B \<or> hd s1 = 0x2D) then tl s1 else s1);
          hex = (length s2 \<ge> 2 \<and> hd s2 = 0x30 \<and> (s2 ! 1 = 0x78 \<or> s2 ! 1 = 0x58));
          radix = (if hex then 16 else 10);
          s3 = (if hex then drop 2 s2 else s2);
          ds = takeWhile (isDigitIn radix) s3
      in if ds = [] then None
         else Some ((if negative then - 1 else 1) * digitsValue radix ds))"

text \<open>
  \<open>parseInt\<close> of a Number reads the digits of \<open>String(x)\<close>. Below \<open>10^21\<close> that is the
  plain decimal numeral of the double, and the result is the double again. From
  \<open>10^21\<close> on, \<open>Number::toString\<close> writes exponent notation, \<open>d.ddde+n\<close>, with the
  shortest digit string \<open>s\<close> (of \<open>k\<close> digits, \<open>k\<close> as small as possible, at most 17)
  that rounds to the double, the nearest to it when several do; \<open>parseInt\<close> stops at the
  point or the \<open>e\<close> and returns the first digit, so \<open>parseInt(1e21)\<close> is 1. \<open>Infinity\<close>
  has no digit.
\<close>

function decimalLength :: "nat \<Rightarrow> nat" where
  "decimalLength n = (if n = 0 then 0 else Suc (decimalLength (n div 10)))"
  by pat_completeness auto
termination by (relation "measure id") auto

declare decimalLength.simps [simp del]

text \<open>
  The digit string of \<open>k\<close> digits for the double \<open>x\<close>, if one rounds to \<open>x\<close>: the
  candidates are the two multiples of \<open>10^(digits of x - k)\<close> around \<open>x\<close>; the upper one
  may be \<open>10^k\<close>, which is written \<open>1\<close> followed by zeros.
\<close>

definition shortestDigits :: "nat \<Rightarrow> nat \<Rightarrow> nat option" where
  "shortestDigits x k =
     (let e = decimalLength x - k;
          lo = x div 10 ^ e;
          hi = lo + 1;
          okLo = (fl (of_nat (lo * 10 ^ e)) = of_nat x);
          okHi = (fl (of_nat (hi * 10 ^ e)) = of_nat x)
      in if okLo \<and> okHi then
           (if x - lo * 10 ^ e < hi * 10 ^ e - x then Some lo
            else if hi * 10 ^ e - x < x - lo * 10 ^ e then Some hi
            else if even lo then Some lo else Some hi)
         else if okLo then Some lo
         else if okHi then Some hi
         else None)"

function leadingDigit :: "nat \<Rightarrow> nat \<Rightarrow> int" where
  "leadingDigit x k =
     (if 17 < k then 0
      else case shortestDigits x k of
             Some s \<Rightarrow> if s = 10 ^ k then 1 else int (s div 10 ^ (k - 1))
           | None \<Rightarrow> leadingDigit x (k + 1))"
  by pat_completeness auto
termination by (relation "measure (\<lambda>(x, k). 18 - k)") auto

declare leadingDigit.simps [simp del]

definition parseIntNumber :: "int \<Rightarrow> int option" where
  "parseIntNumber n =
     (let x = fl (of_int \<bar>n\<bar>)
      in if 2 ^ 1024 \<le> x then None
         else if x < 10 ^ 21 then Some (sgn n * \<lfloor>x\<rfloor>)
         else Some (sgn n * leadingDigit (nat \<lfloor>x\<rfloor>) 1))"

fun parseInt :: "jsval \<Rightarrow> int option" where
  "parseInt (JNum (Fin n)) = parseIntNumber n"
| "parseInt (JNum PosInf) = None"
| "parseInt (JNum NaN) = None"
| "parseInt (JStr s) = parseIntString s"
| "parseInt JUndefined = None"
| "parseInt JNull = None"
| "parseInt (JBool b) = None"

text \<open>
  \<open>parseInt(v) || d\<close>: the default replaces every falsy result, that is \<open>NaN\<close> and
  also \<open>0\<close>.
\<close>

definition parseIntOr :: "jsval \<Rightarrow> int \<Rightarrow> int" where
  "parseIntOr v d = (case parseInt v of None \<Rightarrow> d | Some n \<Rightarrow> if n = 0 then d else n)"

text \<open>A default parameter value replaces \<open>undefined\<close> only.\<close>

definition withDefault :: "int \<Rightarrow> jsval \<Rightarrow> jsval" where
  "withDefault d v = (case v of JUndefined \<Rightarrow> JNum (Fin d) | _ \<Rightarrow> v)"

section \<open>CanvasGenerator\<close>

subsection \<open>The constants set by the constructor\<close>

text \<open>
  \<open>Math.floor((this.A4_WIDTH_MM / 25.4) * this.DPI)\<close>: the exact values are 2480.31 and
  3507.87, far from an integer, so the floor of the double is the floor of the exact
  product.
\<close>

definition A4_WIDTH_MM :: rat where "A4_WIDTH_MM = 210"
definition A4_HEIGHT_MM :: rat where "A4_HEIGHT_MM = 297"
definition DPI :: rat where "DPI = 300"

definition A4_WIDTH_PX :: int where
  "A4_WIDTH_PX = \<lfloor>(A4_WIDTH_MM / (254 / 10)) * DPI\<rfloor>"

definition A4_HEIGHT_PX :: int where
  "A4_HEIGHT_PX = \<lfloor>(A4_HEIGHT_MM / (254 / 10)) * DPI\<rfloor>"

definition padding :: int where "padding = 40"

subsection \<open>calculateA4Layout\<close>

record a4_layout =
  cellSize :: int
  totalWidth :: int
  totalHeight :: int
  charsPerRow :: int
  rowCount :: int

definition contentWidth :: int where
  "contentWidth = A4_WIDTH_PX - (2 * padding)"

definition contentHeight :: int where
  "contentHeight = A4_HEIGHT_PX - (2 * padding)"

text \<open>
  \<open>Math.floor(contentWidth / charsPerRow)\<close> on two integers, the divisor positive, is
  integer division. The only caller, \<open>generateCopybook\<close>, passes counts it has clamped
  to at least 1.
\<close>

definition calculateA4Layout :: "int \<Rightarrow> int \<Rightarrow> a4_layout" where
  "calculateA4Layout cpr rc =
     (let cellWidth = contentWidth div cpr;
          cellHeight = contentHeight div rc;
          optimalCellSize = min cellWidth cellHeight
      in \<lparr> cellSize = optimalCellSize,
           totalWidth = cpr * optimalCellSize + (2 * padding),
           totalHeight = rc * optimalCellSize + (2 * padding),
           charsPerRow = cpr,
           rowCount = rc \<rparr>)"


subsection \<open>Fonts\<close>

text \<open>ASCII text as code units, for the string constants of the source.\<close>

definition ascii :: "string \<Rightarrow> jsstring" where
  "ascii s = map (\<lambda>c. of_nat (of_char c)) s"

text \<open>
  \<open>loadedFonts\<close> is filled once by the constructor from the font files it finds; it is a
  parameter here. \<open>getFontFamily\<close> is \<open>this.loadedFonts.get(fontType) || 'serif'\<close>.
\<close>

definition getFontFamily :: "(jsstring \<rightharpoonup> jsstring) \<Rightarrow> jsval \<Rightarrow> jsstring" where
  "getFontFamily loadedFonts fontType =
     (case fontType of
        JStr k \<Rightarrow> (case loadedFonts k of
                     Some family \<Rightarrow> if family = [] then ascii ''serif'' else family
                   | None \<Rightarrow> ascii ''serif'')
      | _ \<Rightarrow> ascii ''serif'')"

subsection \<open>The drawing surface\<close>

text \<open>
  The canvas is kept as the list of drawing calls made on it: one entry per
  \<open>drawRiceGrid\<close> call (corner and size of the cell) and one per
  \<open>drawCharacterInCell\<close> call, with the value of \<open>ctx.globalAlpha\<close> in force
  during that call.
\<close>

record glyph =
  glyph_char :: jsstring
  glyph_x :: int
  glyph_y :: int
  glyph_cellSize :: int
  glyph_font :: jsstring
  glyph_alpha :: rat

record canvas =
  width :: int
  height :: int
  cells :: "(int \<times> int \<times> int) list"
  glyphs :: "glyph list"

definition drawGrid :: "a4_layout \<Rightarrow> (int \<times> int \<times> int) list" where
  "drawGrid L =
     concat (map (\<lambda>row. map (\<lambda>col. (padding + col * cellSize L,
                                      padding + row * cellSize L,
                                      cellSize L))
                           [0 .. charsPerRow L - 1])
                 [0 .. rowCount L - 1])"

subsection \<open>generateCopybook\<close>

text \<open>
  The options bag of \<open>generateCopybook\<close>. \<open>guideOpacity\<close> is a number or absent
  (\<open>None\<close>). Decimal literals of the source (\<open>0.3\<close>, \<open>0.1\<close>) are the rationals they
  write: the code only compares and selects opacities, it never computes with them.
\<close>

record copybook_options =
  practiceMode :: bool
  guideOpacity :: "rat option"

text \<open>\<open>v || d\<close> on a number or \<open>undefined\<close>: \<open>undefined\<close> and \<open>0\<close> are falsy.\<close>

definition numberOr :: "rat option \<Rightarrow> rat \<Rightarrow> rat" where
  "numberOr v d = (case v of None \<Rightarrow> d | Some q \<Rightarrow> if q = 0 then d else q)"

text \<open>
  The setter of \<open>ctx.globalAlpha\<close>: the canvas ignores an assignment of a value outside
  \<open>[0, 1]\<close> and keeps the value it had.
\<close>

definition setGlobalAlpha :: "rat \<Rightarrow> rat \<Rightarrow> rat" where
  "setGlobalAlpha current v = (if 0 \<le> v \<and> v \<le> 1 then v else current)"

text \<open>
  One \<open>drawCharacterInCell\<close> call of the loop body. The context has its initial
  \<open>globalAlpha\<close> of 1 before every call: outside practice mode nothing assigns it, and
  in practice mode the code saves it, assigns \<open>options.guideOpacity || 0.3\<close>, draws, and
  puts the saved value back.
\<close>

definition drawCharacter ::
  "copybook_options \<Rightarrow> jsstring \<Rightarrow> int \<Rightarrow> int \<Rightarrow> int \<Rightarrow> jsstring \<Rightarrow> glyph" where
  "drawCharacter options char x y cell fontFamily =
     \<lparr> glyph_char = char, glyph_x = x, glyph_y = y, glyph_cellSize = cell,
       glyph_font = fontFamily,
       glyph_alpha = (if practiceMode options
                      then setGlobalAlpha 1 (numberOr (guideOpacity options) (3 / 10))
                      else 1) \<rparr>"

text \<open>
  The inner loop \<open>for (col = 0; col < charsPerRow && charIndex < characters.length; col++)\<close>,
  returning \<open>charIndex\<close> and the draw calls made so far.
\<close>

function placeCols ::
  "jsstring list \<Rightarrow> int \<Rightarrow> int \<Rightarrow> jsstring \<Rightarrow> copybook_options \<Rightarrow> nat \<Rightarrow>
   nat \<Rightarrow> nat \<Rightarrow> glyph list \<Rightarrow> nat \<times> glyph list" where
  "placeCols characters cpr cell fontFamily options row col charIndex drawn =
     (if int col < cpr \<and> charIndex < length characters then
        placeCols characters cpr cell fontFamily options row (col + 1) (charIndex + 1)
          (drawn @ [drawCharacter options (characters ! charIndex)
                      (padding + int col * cell) (padding + int row * cell) cell fontFamily])
      else (charIndex, drawn))"
  by pat_completeness auto
termination
  by (relation "measure (\<lambda>(characters, cpr, cell, fontFamily, options, row, col, charIndex, drawn).
        length characters - charIndex)") auto

declare placeCols.simps [simp del]

text \<open>
  The outer loop \<open>for (row = 0; row < rowCount && charIndex < characters.length; row++)\<close>.
\<close>

function placeRows ::
  "jsstring list \<Rightarrow> int \<Rightarrow> int \<Rightarrow> int \<Rightarrow> jsstring \<Rightarrow> copybook_options \<Rightarrow>
   nat \<Rightarrow> nat \<Rightarrow> glyph list \<Rightarrow> nat \<times> glyph list" where
  "placeRows characters cpr rc cell fontFamily options row charIndex drawn =
     (if int row < rc \<and> charIndex < length characters then
        (case placeCols characters cpr cell fontFamily options row 0 charIndex drawn of
           (charIndex', drawn') \<Rightarrow>
             placeRows characters cpr rc cell fontFamily options (row + 1) charIndex' drawn')
      else (charIndex, drawn))"
  by pat_completeness auto
termination
  by (relation "measure (\<lambda>(characters, cpr, rc, cell, fontFamily, options, row, charIndex, drawn).
        nat (rc - int row))") auto

declare placeRows.simps [simp del]

text \<open>
  The draw call expected for the character of index \<open>i\<close> when the grid is filled
  row by row from cell (0,0): column \<open>i mod charsPerRow\<close>, row \<open>i div charsPerRow\<close>.
\<close>

definition glyphAt ::
  "jsstring list \<Rightarrow> int \<Rightarrow> int \<Rightarrow> jsstring \<Rightarrow> copybook_options \<Rightarrow> nat \<Rightarrow> glyph" where
  "glyphAt characters cpr cell family options i =
     drawCharacter options (characters ! i)
       (padding + (int i mod cpr) * cell) (padding + (int i div cpr) * cell) cell family"

datatype js_error = TypeError

record copybook =
  canvas :: canvas
  layout :: a4_layout
  charactersDrawn :: nat
  totalCharacters :: nat
  fontFamily :: jsstring

text \<open>
  \<open>generateCopybook(text, fontType = 'serif', charsPerRow = 15, rowCount = 5, options = {})\<close>.
  The layout, the canvas and the grid are made first; \<open>text.replace\<close> then throws a
  \<open>TypeError\<close> when \<open>text\<close> is not a string, and the promise is rejected.
\<close>

definition generateCopybook ::
  "(jsstring \<rightharpoonup> jsstring) \<Rightarrow> jsval \<Rightarrow> jsval \<Rightarrow> jsval \<Rightarrow> jsval \<Rightarrow> copybook_options \<Rightarrow>
   js_error + copybook" where
  "generateCopybook loadedFonts text fontType cprArg rcArg options =
     (let cpr = max 1 (min 20 (parseIntOr (withDefault 15 cprArg) 15));
          rc = max 1 (min 30 (parseIntOr (withDefault 5 rcArg) 5));
          L = calculateA4Layout cpr rc;
          grid = drawGrid L
      in case text of
           JStr s \<Rightarrow>
             (let characters = splitCharacters s;
                  family = getFontFamily loadedFonts
                             (case fontType of JUndefined \<Rightarrow> JStr (ascii ''serif'') | _ \<Rightarrow> fontType)
              in case placeRows characters cpr rc (cellSize L) family options 0 0 [] of
                   (charIndex, drawn) \<Rightarrow>
                     Inr \<lparr> canvas = \<lparr> width = totalWidth L, height = totalHeight L,
                                     cells = grid, glyphs = drawn \<rparr>,
                           layout = L,
                           charactersDrawn = charIndex,
                           totalCharacters = length characters,
                           fontFamily = family \<rparr>)
         | _ \<Rightarrow> Inl TypeError)"

text \<open>\<open>generatePracticeCopybook(text, fontType, charsPerRow, rowCount, guideOpacity = 0.3)\<close>.\<close>

definition generatePracticeCopybook ::
  "(jsstring \<rightharpoonup> jsstring) \<Rightarrow> jsval \<Rightarrow> jsval \<Rightarrow> jsval \<Rightarrow> jsval \<Rightarrow> rat option \<Rightarrow>
   js_error + copybook" where
  "generatePracticeCopybook loadedFonts text fontType cprArg rcArg opacity =
     generateCopybook loadedFonts text fontType cprArg rcArg
       \<lparr> practiceMode = True,
         guideOpacity = (case opacity of None \<Rightarrow> Some (3 / 10) | Some q \<Rightarrow> Some q) \<rparr>"

subsection \<open>Reading a result\<close>


definition alphasUsed :: "js_error + copybook \<Rightarrow> rat list" where
  "alphasUsed r = (case r of Inl e \<Rightarrow> [] | Inr res \<Rightarrow> map glyph_alpha (glyphs (canvas res)))"

subsection \<open>validateText\<close>

datatype validation_error = TextRequired | TextEmpty | TextTooLong

text \<open>
  \<open>!text || typeof text !== 'string'\<close> rejects every non-string and the empty string.
\<close>

definition validateText :: "jsval \<Rightarrow> validation_error + jsstring" where
  "validateText text =
     (case text of
        JStr s \<Rightarrow>
          if s = [] then Inl TextRequired
          else (let cleanText = trim s
                in if length cleanText = 0 then Inl TextEmpty
                   else if length cleanText > 2000 then Inl TextTooLong
                   else Inr cleanText)
      | _ \<Rightarrow> Inl TextRequired)"


section \<open>PDFGenerator\<close>

subsection \<open>Number and array primitives\<close>

text \<open>
  \<open>Math.ceil(a / b)\<close> for a length \<open>a\<close> and an integer \<open>b\<close>. The quotient of two
  integers below \<open>2^53\<close> is rounded by less than its distance to the next integer, so the
  ceiling of the double is the ceiling of the exact quotient.
\<close>

definition ceilDiv :: "nat \<Rightarrow> int \<Rightarrow> jsnum" where
  "ceilDiv a b =
     (if b = 0 then (if a = 0 then NaN else PosInf)
      else Fin \<lceil>(of_nat a :: rat) / of_int b\<rceil>)"

text \<open>\<open>page < totalPages\<close>: every comparison with \<open>NaN\<close> is false.\<close>

definition lessNum :: "int \<Rightarrow> jsnum \<Rightarrow> bool" where
  "lessNum k t = (case t of Fin n \<Rightarrow> k < n | PosInf \<Rightarrow> True | NaN \<Rightarrow> False)"

text \<open>\<open>Math.min(rowCount, x)\<close>.\<close>

definition minNum :: "int \<Rightarrow> jsnum \<Rightarrow> jsnum" where
  "minNum k t = (case t of Fin n \<Rightarrow> Fin (min k n) | PosInf \<Rightarrow> Fin k | NaN \<Rightarrow> NaN)"

text \<open>
  \<open>Array.prototype.slice(start, end)\<close> on integer arguments: a negative index counts
  from the end, both are cut to the array, and an end before the start gives the empty
  array.
\<close>

definition slice :: "'a list \<Rightarrow> int \<Rightarrow> int \<Rightarrow> 'a list" where
  "slice xs start stop =
     (let n = int (length xs);
          from = (if start < 0 then max (n + start) 0 else min start n);
          to = (if stop < 0 then max (n + stop) 0 else min stop n)
      in take (nat (to - from)) (drop (nat from) xs))"

subsection \<open>generateMultiPagePDF\<close>

text \<open>
  The options bag as the generator reads it: numeric options are integers or absent
  (\<open>None\<close>, replaced by the default of the destructuring pattern).
\<close>

record pdf_options =
  opt_fontType :: jsval
  opt_charsPerRow :: "int option"
  opt_rowCount :: "int option"
  opt_practiceMode :: bool
  opt_guideOpacity :: "rat option"
  opt_title :: "jsstring option"
  opt_multiPage :: bool
  opt_pageBreakAfter :: "int option"
  opt_outputFormat :: jsval

subsection \<open>The place of the page image on the sheet\<close>

text \<open>
  The sheet in points, as the constructor sets it: \<open>A4_WIDTH_POINTS = 595.28\<close>,
  \<open>A4_HEIGHT_POINTS = 841.89\<close> and four margins of 40. Neither literal is a double;
  the constants are the doubles nearest to them.
\<close>

definition A4_WIDTH_POINTS :: rat where "A4_WIDTH_POINTS = fl (59528 / 100)"
definition A4_HEIGHT_POINTS :: rat where "A4_HEIGHT_POINTS = fl (84189 / 100)"

definition margins_top :: rat where "margins_top = 40"
definition margins_bottom :: rat where "margins_bottom = 40"
definition margins_left :: rat where "margins_left = 40"
definition margins_right :: rat where "margins_right = 40"

text \<open>
  \<open>calculateImageDimensions(canvasWidth, canvasHeight)\<close>, every operation rounded as
  JavaScript rounds it. The canvas sizes are positive integers (a division by zero,
  \<open>Infinity\<close> in JavaScript, is outside this model).
\<close>

record image_dimensions =
  dim_width :: rat
  dim_height :: rat
  dim_scale :: rat

definition calculateImageDimensions :: "int \<Rightarrow> int \<Rightarrow> image_dimensions" where
  "calculateImageDimensions canvasWidth canvasHeight =
     (let availableWidth = fl (fl (A4_WIDTH_POINTS - margins_left) - margins_right);
          availableHeight = fl (fl (A4_HEIGHT_POINTS - margins_top) - margins_bottom);
          scaleX = fl (availableWidth / of_int canvasWidth);
          scaleY = fl (availableHeight / of_int canvasHeight);
          scale = min scaleX scaleY
      in \<lparr> dim_width = fl (of_int canvasWidth * scale),
           dim_height = fl (of_int canvasHeight * scale),
           dim_scale = scale \<rparr>)"

text \<open>
  The arguments of \<open>doc.image(imageBuffer, x, y, {width, height})\<close>, with
  \<open>x = margins.left + (A4_WIDTH_POINTS - margins.left - margins.right - imageDimensions.width) / 2\<close>
  and \<open>y\<close> alike.
\<close>

record image_placement =
  image_x :: rat
  image_y :: rat
  image_width :: rat
  image_height :: rat

definition placeImage :: "int \<Rightarrow> int \<Rightarrow> image_placement" where
  "placeImage canvasWidth canvasHeight =
     (let imageDimensions = calculateImageDimensions canvasWidth canvasHeight;
          x = fl (margins_left +
                  fl (fl (fl (fl (A4_WIDTH_POINTS - margins_left) - margins_right)
                          - dim_width imageDimensions) / 2));
          y = fl (margins_top +
                  fl (fl (fl (fl (A4_HEIGHT_POINTS - margins_top) - margins_bottom)
                          - dim_height imageDimensions) / 2))
      in \<lparr> image_x = x, image_y = y,
           image_width = dim_width imageDimensions,
           image_height = dim_height imageDimensions \<rparr>)"

text \<open>
  The content area of the sheet, between the margins: its width and height as
  \<open>calculateImageDimensions\<close> computes them.
\<close>

definition availableWidth :: rat where
  "availableWidth = fl (fl (A4_WIDTH_POINTS - margins_left) - margins_right)"

definition availableHeight :: rat where
  "availableHeight = fl (fl (A4_HEIGHT_POINTS - margins_top) - margins_bottom)"

subsection \<open>The pages of a document\<close>

text \<open>
  One page of the document: the text of its slice, the canvas result drawn for it, the
  place of its image on the sheet, and the two numbers of its footer.
\<close>

record pdf_page =
  page_text :: jsstring
  page_canvas :: copybook
  page_image :: image_placement
  page_number :: nat
  page_of :: jsnum

record multipage_pdf =
  pdf :: "pdf_page list"
  totalPages :: jsnum
  doc_charactersDrawn :: nat
  doc_totalCharacters :: nat

definition titleDefault :: jsstring where
  "titleDefault = [0x6C49, 0x5B57, 0x5B57, 0x5E16]"

text \<open>A slice that is not empty lies inside the array, so the page loop ends.\<close>

lemma slice_beyond: "int (length xs) \<le> start \<Longrightarrow> slice xs start stop = []"
  by (simp add: slice_def Let_def)

lemma slice_backwards_nonneg: "stop \<le> start \<Longrightarrow> 0 \<le> stop \<Longrightarrow> slice xs start stop = []"
  by (simp add: slice_def Let_def)

lemma slice_backwards_neg: "stop \<le> start \<Longrightarrow> start < 0 \<Longrightarrow> slice xs start stop = []"
  by (simp add: slice_def Let_def)

lemma slice_nonempty:
  assumes "slice xs (int page * p) (min (int page * p + p) (int (length xs))) \<noteq> []"
  shows "(0 < p \<and> int page * p < int (length xs)) \<or> (p < 0 \<and> page = 0)"
proof (rule ccontr)
  assume neg: "\<not> ?thesis"
  define start where "start = int page * p"
  define n where "n = int (length xs)"
  have "slice xs start (min (start + p) n) = []"
  proof (cases "0 < p")
    case True
    then have "0 \<le> start" by (simp add: start_def)
    moreover from neg True have "n \<le> start" by (simp add: start_def n_def)
    ultimately show ?thesis by (simp add: slice_beyond n_def)
  next
    case False
    show ?thesis
    proof (cases "p = 0")
      case True
      then have "start = 0" "min (start + p) n = 0" by (simp_all add: start_def n_def)
      then show ?thesis by (simp add: slice_backwards_nonneg)
    next
      case nz: False
      with False neg have "0 < page" "p < 0" by auto
      then have "int page * p < 0"
        by (simp add: mult_pos_neg)
      then have "start < 0" by (simp add: start_def)
      moreover from \<open>p < 0\<close> have "min (start + p) n \<le> start" by simp
      ultimately show ?thesis by (simp add: slice_backwards_neg)
    qed
  qed
  with assms show False by (simp add: start_def n_def)
qed

text \<open>
  The canvas of one page:
  \<open>practiceMode ? generatePracticeCopybook(pageText, fontType, charsPerRow, actualRowCount, guideOpacity)
  : generateCopybook(pageText, fontType, charsPerRow, actualRowCount)\<close>, with
  \<open>actualRowCount = Math.min(rowCount, Math.ceil(charsInPage / charsPerRow))\<close>.
\<close>

definition actualRowCount :: "int \<Rightarrow> int \<Rightarrow> nat \<Rightarrow> jsnum" where
  "actualRowCount rc cpr charsInPage = minNum rc (ceilDiv charsInPage cpr)"

definition pageCanvas ::
  "(jsstring \<rightharpoonup> jsstring) \<Rightarrow> jsval \<Rightarrow> int \<Rightarrow> int \<Rightarrow> bool \<Rightarrow> rat \<Rightarrow> jsstring \<Rightarrow>
   js_error + copybook" where
  "pageCanvas loadedFonts fontType cpr rc practice opacity pageText =
     (let charsInPage = length pageText
      in if practice
         then generatePracticeCopybook loadedFonts (JStr pageText) fontType
                (JNum (Fin cpr)) (JNum (actualRowCount rc cpr charsInPage)) (Some opacity)
         else generateCopybook loadedFonts (JStr pageText) fontType
                (JNum (Fin cpr)) (JNum (actualRowCount rc cpr charsInPage))
                \<lparr> practiceMode = False, guideOpacity = None \<rparr>)"

text \<open>
  The body of \<open>for (let page = 0; page < totalPages; page++)\<close>, with \<open>processedChars\<close>
  and the pages added to the document so far. An empty page text leaves the loop
  (\<open>break\<close>); a rejected canvas promise rejects the whole call.
\<close>

function pageLoop ::
  "(jsstring \<rightharpoonup> jsstring) \<Rightarrow> jsstring list \<Rightarrow> jsval \<Rightarrow> int \<Rightarrow> int \<Rightarrow> bool \<Rightarrow> rat \<Rightarrow> int \<Rightarrow>
   jsnum \<Rightarrow> nat \<Rightarrow> nat \<Rightarrow> pdf_page list \<Rightarrow> js_error + (nat \<times> pdf_page list)" where
  "pageLoop loadedFonts characters fontType cpr rc practice opacity pageBreakAfter
     pages page processedChars doc =
     (if lessNum (int page) pages then
        (let startIndex = int page * pageBreakAfter;
             endIndex = min (startIndex + pageBreakAfter) (int (length characters));
             pageText = concat (slice characters startIndex endIndex)
         in if length pageText = 0 then Inr (processedChars, doc)
            else
              (case pageCanvas loadedFonts fontType cpr rc practice opacity pageText of
                 Inl e \<Rightarrow> Inl e
               | Inr canvasResult \<Rightarrow>
                   pageLoop loadedFonts characters fontType cpr rc practice opacity
                     pageBreakAfter pages (page + 1)
                     (processedChars + charactersDrawn canvasResult)
                     (doc @ [\<lparr> page_text = pageText, page_canvas = canvasResult,
                               page_image = placeImage (width (canvas canvasResult))
                                              (height (canvas canvasResult)),
                               page_number = page + 1, page_of = pages \<rparr>])))
      else Inr (processedChars, doc))"
  by pat_completeness auto
termination
proof (relation "measure (\<lambda>(loadedFonts, characters, fontType, cpr, rc, practice, opacity,
          pageBreakAfter, pages, page, processedChars, doc).
        if 0 < pageBreakAfter then nat (int (length characters) - int page * pageBreakAfter)
        else if page = 0 then 1 else 0)", goal_cases)
  case 1
  show ?case by simp
next
  case (2 loadedFonts characters fontType cpr rc practice opacity pageBreakAfter pages page
          processedChars doc startIndex endIndex pageText canvasResult)
  from 2 have "slice characters (int page * pageBreakAfter)
      (min (int page * pageBreakAfter + pageBreakAfter) (int (length characters))) \<noteq> []"
    by auto
  from slice_nonempty [OF this] show ?case
    by (auto simp: algebra_simps)
qed

declare pageLoop.simps [simp del]

text \<open>
  The locals that \<open>generateMultiPagePDF\<close> destructures from its options, each with the
  default of the pattern: \<open>fontType = 'serif'\<close>, \<open>charsPerRow = 10\<close>, \<open>rowCount = 15\<close>,
  \<open>guideOpacity = 0.2\<close>, \<open>pageBreakAfter = 150\<close>.
\<close>

definition fontTypeOf :: "pdf_options \<Rightarrow> jsval" where
  "fontTypeOf options =
     (case opt_fontType options of JUndefined \<Rightarrow> JStr (ascii ''serif'') | v \<Rightarrow> v)"

definition charsPerRowOf :: "pdf_options \<Rightarrow> int" where
  "charsPerRowOf options = (case opt_charsPerRow options of None \<Rightarrow> 10 | Some n \<Rightarrow> n)"

definition rowCountOf :: "pdf_options \<Rightarrow> int" where
  "rowCountOf options = (case opt_rowCount options of None \<Rightarrow> 15 | Some n \<Rightarrow> n)"

definition guideOpacityOf :: "pdf_options \<Rightarrow> rat" where
  "guideOpacityOf options = (case opt_guideOpacity options of None \<Rightarrow> 2 / 10 | Some q \<Rightarrow> q)"

definition pageBreakAfterOf :: "pdf_options \<Rightarrow> int" where
  "pageBreakAfterOf options =
     (case opt_pageBreakAfter options of None \<Rightarrow> 150 | Some n \<Rightarrow> n)"

text \<open>
  \<open>generateMultiPagePDF(text, options)\<close>: the options are destructured, the text is
  split into the character stream (\<open>text.replace\<close> throws for a text that is not a
  string), and the loop runs from page 0.
\<close>

definition generateMultiPagePDF ::
  "(jsstring \<rightharpoonup> jsstring) \<Rightarrow> jsval \<Rightarrow> pdf_options \<Rightarrow> js_error + multipage_pdf" where
  "generateMultiPagePDF loadedFonts text options =
     (case text of
        JStr s \<Rightarrow>
          (let characters = splitCharacters s;
               totalChars = length characters;
               pages = ceilDiv totalChars (pageBreakAfterOf options)
           in case pageLoop loadedFonts characters (fontTypeOf options)
                     (charsPerRowOf options) (rowCountOf options) (opt_practiceMode options)
                     (guideOpacityOf options) (pageBreakAfterOf options) pages 0 0 [] of
                Inl e \<Rightarrow> Inl e
              | Inr (processedChars, doc) \<Rightarrow>
                  Inr \<lparr> pdf = doc, totalPages = pages,
                        doc_charactersDrawn = processedChars,
                        doc_totalCharacters = totalChars \<rparr>)
      | _ \<Rightarrow> Inl TypeError)"

subsection \<open>Reading a document\<close>

text \<open>
  The number of pages \<open>ceil(n / charsPerPage)\<close> for a stream of \<open>n\<close> characters, and
  the characters of indices \<open>i * charsPerPage\<close> up to, not including,
  \<open>min((i + 1) * charsPerPage, n)\<close>: the slice of page \<open>i\<close>.
\<close>

definition pageCount :: "nat \<Rightarrow> nat \<Rightarrow> nat" where
  "pageCount n p = nat \<lceil>(of_nat n :: rat) / of_nat p\<rceil>"

definition pageChars :: "jsstring list \<Rightarrow> nat \<Rightarrow> nat \<Rightarrow> jsstring list" where
  "pageChars characters p i =
     map (\<lambda>j. characters ! j) [i * p ..< min ((i + 1) * p) (length characters)]"

text \<open>
  The canvas result and the page that the loop adds for the slice of index \<open>i\<close>.
\<close>

definition pageResult ::
  "(jsstring \<rightharpoonup> jsstring) \<Rightarrow> jsval \<Rightarrow> int \<Rightarrow> int \<Rightarrow> bool \<Rightarrow> rat \<Rightarrow> jsstring list \<Rightarrow> nat \<Rightarrow> nat \<Rightarrow> copybook" where
  "pageResult loadedFonts fontType cpr rc practice opacity characters p i =
     projr (pageCanvas loadedFonts fontType cpr rc practice opacity (concat (pageChars characters p i)))"

definition pageRecord ::
  "(jsstring \<rightharpoonup> jsstring) \<Rightarrow> jsval \<Rightarrow> int \<Rightarrow> int \<Rightarrow> bool \<Rightarrow> rat \<Rightarrow> jsstring list \<Rightarrow> nat \<Rightarrow> nat \<Rightarrow> pdf_page" where
  "pageRecord loadedFonts fontType cpr rc practice opacity characters p i =
     \<lparr> page_text = concat (pageChars characters p i),
       page_canvas = pageResult loadedFonts fontType cpr rc practice opacity characters p i,
       page_image =
         placeImage
           (width (canvas (pageResult loadedFonts fontType cpr rc practice opacity characters p i)))
           (height (canvas (pageResult loadedFonts fontType cpr rc practice opacity characters p i))),
       page_number = i + 1,
       page_of = Fin (int (pageCount (length characters) p)) \<rparr>"

text \<open>The row counts of the grids drawn for the pages of a document, in page order.\<close>

definition pageRows :: "js_error + multipage_pdf \<Rightarrow> int list" where
  "pageRows r =
     (case r of Inl e \<Rightarrow> []
      | Inr doc \<Rightarrow> map (\<lambda>pg. rowCount (layout (page_canvas pg))) (pdf doc))"

subsection \<open>validateOptions\<close>

text \<open>
  The options bag as a caller may send it, before any check: counts are arbitrary
  values, \<open>JUndefined\<close> standing for a key that is not given, so that the default of
  \<open>getDefaultOptions\<close> stays in the merged bag.
\<close>

record raw_options =
  raw_fontType :: jsval
  raw_charsPerRow :: jsval
  raw_rowCount :: jsval
  raw_practiceMode :: "bool option"
  raw_guideOpacity :: "rat option"
  raw_title :: "jsstring option"
  raw_multiPage :: "bool option"
  raw_pageBreakAfter :: jsval
  raw_outputFormat :: jsval

text \<open>
  \<open>parseFloat\<close> of a number is that number, so \<open>parseFloat(v) || 0.2\<close> is the \<open>||\<close>
  on the number itself.
\<close>

definition validateOptions :: "raw_options \<Rightarrow> pdf_options" where
  "validateOptions options =
     \<lparr> opt_fontType =
         (if raw_fontType options \<in> JStr ` {ascii ''serif'', ascii ''sans-serif'',
                                             ascii ''cursive'', ascii ''fantasy''}
          then raw_fontType options else JStr (ascii ''serif'')),
       opt_charsPerRow =
         Some (max 1 (min 20 (parseIntOr (withDefault 10 (raw_charsPerRow options)) 10))),
       opt_rowCount =
         Some (max 1 (min 30 (parseIntOr (withDefault 15 (raw_rowCount options)) 15))),
       opt_practiceMode = (case raw_practiceMode options of None \<Rightarrow> False | Some b \<Rightarrow> b),
       opt_guideOpacity =
         Some (max (1 / 10) (min 1 (numberOr (raw_guideOpacity options) (2 / 10)))),
       opt_title = (case raw_title options of None \<Rightarrow> Some titleDefault | Some t \<Rightarrow> Some t),
       opt_multiPage = (case raw_multiPage options of None \<Rightarrow> False | Some b \<Rightarrow> b),
       opt_pageBreakAfter =
         Some (max 50 (min 500 (parseIntOr (withDefault 150 (raw_pageBreakAfter options)) 150))),
       opt_outputFormat =
         (if raw_outputFormat options \<in> JStr ` {ascii ''buffer'', ascii ''file''}
          then raw_outputFormat options else JStr (ascii ''buffer'')) \<rparr>"

subsection \<open>Example inputs\<close>

text \<open>
  A text of five characters with a space and a line break inside, and an options bag
  with the three counts given.
\<close>

definition exampleText :: jsstring where
  "exampleText = [0x4F60, 0x597D, 0x20, 0x4E16, 0x754C, 0x0A, 0x5B57]"

text \<open>A text of 31 characters.\<close>

definition exampleLine :: jsstring where
  "exampleLine = replicate 31 0x4F60"

definition exampleOptions :: "int \<Rightarrow> int \<Rightarrow> int \<Rightarrow> pdf_options" where
  "exampleOptions cpr rc perPage =
     \<lparr> opt_fontType = JUndefined, opt_charsPerRow = Some cpr, opt_rowCount = Some rc,
       opt_practiceMode = False, opt_guideOpacity = None, opt_title = None,
       opt_multiPage = True, opt_pageBreakAfter = Some perPage,
       opt_outputFormat = JUndefined \<rparr>"

section \<open>Properties\<close>

lemma A4_WIDTH_PX_value: "A4_WIDTH_PX = 2480"
  by (simp add: A4_WIDTH_PX_def A4_WIDTH_MM_def DPI_def floor_eq_iff)

lemma A4_HEIGHT_PX_value: "A4_HEIGHT_PX = 3507"
  by (simp add: A4_HEIGHT_PX_def A4_HEIGHT_MM_def DPI_def floor_eq_iff)

lemma contentWidth_value: "contentWidth = 2400"
  by (simp add: contentWidth_def A4_WIDTH_PX_value padding_def)

lemma contentHeight_value: "contentHeight = 3427"
  by (simp add: contentHeight_def A4_HEIGHT_PX_value padding_def)


subsection \<open>The character stream\<close>

lemma trim_single: "\<not> isWhiteSpace c \<Longrightarrow> trim [c] = [c]"
  by (simp add: trim_def)

lemma splitCharacters_eq: "splitCharacters s = map (\<lambda>c. [c]) (stripWhitespace s)"
  unfolding splitCharacters_def stripWhitespace_def
  by (rule filter_True) (auto simp: trim_single)

lemma length_splitCharacters: "length (splitCharacters s) = length (stripWhitespace s)"
  by (simp add: splitCharacters_eq)

lemma concat_splitCharacters: "concat (splitCharacters s) = stripWhitespace s"
  by (simp add: splitCharacters_eq concat_map_singleton)

subsection \<open>The placing loops\<close>

lemma placeCols_result:
  "placeCols characters cpr cell family options row col charIndex drawn =
     (charIndex + min (nat (cpr - int col)) (length characters - charIndex),
      drawn @ map (\<lambda>j. drawCharacter options (characters ! (charIndex + j))
                         (padding + int (col + j) * cell) (padding + int row * cell) cell family)
                  [0 ..< min (nat (cpr - int col)) (length characters - charIndex)])"
proof (induction characters cpr cell family options row col charIndex drawn
    rule: placeCols.induct)
  case (1 characters cpr cell family options row col charIndex drawn)
  let ?k = "min (nat (cpr - int col)) (length characters - charIndex)"
  let ?k' = "min (nat (cpr - int (col + 1))) (length characters - (charIndex + 1))"
  show ?case
  proof (cases "int col < cpr \<and> charIndex < length characters")
    case True
    have k: "?k = Suc ?k'"
      using True by (simp add: min_def) linarith
    have shift: "map f [0..<Suc n] = f 0 # map (\<lambda>j. f (Suc j)) [0..<n]"
      for f :: "nat \<Rightarrow> glyph" and n
      by (rule map_upt_Suc)
    show ?thesis
      apply (subst placeCols.simps)
      apply (simp only: True if_True "1.IH" [OF True] k shift)
      apply simp
      done
  next
    case False
    then have "?k = 0" by auto
    moreover have "placeCols characters cpr cell family options row col charIndex drawn
        = (charIndex, drawn)"
      by (subst placeCols.simps) (simp only: False if_False)
    ultimately show ?thesis by simp
  qed
qed

lemma row_glyphs:
  assumes "k \<le> c"
  shows "map (\<lambda>j. drawCharacter options (characters ! (row * c + j))
                         (padding + int (0 + j) * cell) (padding + int row * cell) cell family) [0 ..< k]
       = map (glyphAt characters (int c) cell family options) [row * c ..< row * c + k]"
proof -
  have "[row * c ..< row * c + k] = map (\<lambda>j. j + row * c) [0 ..< k]"
    by (simp add: map_add_upt add.commute)
  moreover have "glyphAt characters (int c) cell family options (j + row * c)
      = drawCharacter options (characters ! (row * c + j))
                         (padding + int (0 + j) * cell) (padding + int row * cell) cell family"
    if "j < k" for j
  proof -
    from that assms have "j < c" by simp
    then have "(int (j + row * c)) mod int c = int j" "(int (j + row * c)) div int c = int row"
      by (simp_all flip: of_nat_mod of_nat_div)
    then show ?thesis by (simp add: glyphAt_def add.commute)
  qed
  ultimately show ?thesis by simp
qed

lemma upt_split: "a \<le> b \<Longrightarrow> b \<le> c \<Longrightarrow> [a..<b] @ [b..<c] = [a..<(c::nat)]"
  using upt_add_eq_append [of a b "c - b"] by simp

lemma placeRows_result:
  assumes "1 \<le> c" and "row \<le> r" and "charIndex = min (length characters) (row * c)"
  shows "placeRows characters (int c) (int r) cell family options row charIndex drawn =
     (min (length characters) (r * c),
      drawn @ map (glyphAt characters (int c) cell family options)
                  [charIndex ..< min (length characters) (r * c)])"
  using assms
proof (induction "r - row" arbitrary: row charIndex drawn)
  case 0
  then have "row = r" by simp
  then have "placeRows characters (int c) (int r) cell family options row charIndex drawn
      = (charIndex, drawn)"
    by (subst placeRows.simps) simp
  with 0 \<open>row = r\<close> show ?case by simp
next
  case (Suc d)
  let ?n = "length characters"
  from Suc have row: "row < r" by simp
  then have "Suc row \<le> r" by simp
  then have "Suc row * c \<le> r * c" by (rule mult_le_mono1)
  then have le: "(row + 1) * c \<le> r * c" by simp
  show ?case
  proof (cases "charIndex < ?n")
    case True
    with Suc.prems have ci: "charIndex = row * c" by (simp add: min_def split: if_splits)
    let ?k = "min c (?n - charIndex)"
    have next_ci: "charIndex + ?k = min ?n ((row + 1) * c)"
      using True ci by (simp add: min_def) arith
    have d: "d = r - (row + 1)" using Suc.hyps(2) by simp
    have upt: "[charIndex ..< charIndex + ?k] @ [charIndex + ?k ..< min ?n (r * c)]
        = [charIndex ..< min ?n (r * c)]"
    proof -
      have "charIndex + ?k \<le> min ?n (r * c)" using next_ci le by simp
      then show ?thesis by (intro upt_split) simp_all
    qed
    have glyphs: "map (\<lambda>j. drawCharacter options (characters ! (charIndex + j))
                         (padding + int (0 + j) * cell) (padding + int row * cell) cell family) [0 ..< ?k]
       = map (glyphAt characters (int c) cell family options) [charIndex ..< charIndex + ?k]"
      unfolding ci by (rule row_glyphs) simp
    have IH: "placeRows characters (int c) (int r) cell family options (row + 1) (charIndex + ?k) drawn' =
         (min ?n (r * c), drawn' @ map (glyphAt characters (int c) cell family options)
                  [charIndex + ?k ..< min ?n (r * c)])" for drawn'
      using Suc.hyps(1) [OF d \<open>1 \<le> c\<close> _ next_ci] row by simp
    have cols: "placeCols characters (int c) cell family options row 0 charIndex drawn
      = (charIndex + ?k, drawn @ map (glyphAt characters (int c) cell family options) [charIndex ..< charIndex + ?k])"
    proof -
      have k0: "min (nat (int c - int 0)) (?n - charIndex) = ?k" by simp
      show ?thesis by (simp only: placeCols_result k0 glyphs)
    qed
    have "placeRows characters (int c) (int r) cell family options row charIndex drawn
       = placeRows characters (int c) (int r) cell family options (row + 1) (charIndex + ?k)
          (drawn @ map (glyphAt characters (int c) cell family options) [charIndex ..< charIndex + ?k])"
      using row True by (subst placeRows.simps) (simp only: cols, simp)
    also have "\<dots> = (min ?n (r * c), drawn @ (map (glyphAt characters (int c) cell family options)
                  ([charIndex ..< charIndex + ?k] @ [charIndex + ?k ..< min ?n (r * c)])))"
      by (simp only: IH map_append append_assoc)
    finally show ?thesis by (simp only: upt)
  next
    case False
    with Suc.prems have "charIndex = ?n" "?n \<le> row * c" by (simp_all add: min_def split: if_splits)
    moreover from this le have "?n \<le> r * c" by simp
    moreover have "placeRows characters (int c) (int r) cell family options row charIndex drawn
      = (charIndex, drawn)"
      using False by (subst placeRows.simps) simp
    ultimately show ?thesis by simp
  qed
qed

text \<open>What \<open>generateCopybook\<close> returns for a string, with the loops resolved.\<close>

lemma generateCopybook_string:
  fixes cprArg rcArg fontType :: jsval and loadedFonts :: "jsstring \<rightharpoonup> jsstring"
  defines "cpr \<equiv> max 1 (min 20 (parseIntOr (withDefault 15 cprArg) 15))"
    and "rc \<equiv> max 1 (min 30 (parseIntOr (withDefault 5 rcArg) 5))"
  defines "family \<equiv> getFontFamily loadedFonts
             (case fontType of JUndefined \<Rightarrow> JStr (ascii ''serif'') | _ \<Rightarrow> fontType)"
  shows "generateCopybook loadedFonts (JStr s) fontType cprArg rcArg options =
     Inr \<lparr> canvas = \<lparr> width = totalWidth (calculateA4Layout cpr rc),
                     height = totalHeight (calculateA4Layout cpr rc),
                     cells = drawGrid (calculateA4Layout cpr rc),
                     glyphs = map (glyphAt (splitCharacters s) cpr
                                     (cellSize (calculateA4Layout cpr rc)) family options)
                                [0 ..< min (length (splitCharacters s)) (nat (rc * cpr))] \<rparr>,
           layout = calculateA4Layout cpr rc,
           charactersDrawn = min (length (splitCharacters s)) (nat (rc * cpr)),
           totalCharacters = length (splitCharacters s),
           fontFamily = family \<rparr>"
proof -
  have pos: "1 \<le> cpr" "1 \<le> rc" by (simp_all add: cpr_def rc_def)
  then have c: "int (nat cpr) = cpr" and r: "int (nat rc) = rc" by simp_all
  have prod: "nat rc * nat cpr = nat (rc * cpr)"
    using pos by (simp add: nat_mult_distrib)
  have "placeRows (splitCharacters s) (int (nat cpr)) (int (nat rc))
          (cellSize (calculateA4Layout cpr rc)) family options 0 0 [] =
        (min (length (splitCharacters s)) (nat rc * nat cpr),
         [] @ map (glyphAt (splitCharacters s) (int (nat cpr))
                     (cellSize (calculateA4Layout cpr rc)) family options)
                [0 ..< min (length (splitCharacters s)) (nat rc * nat cpr)])"
    using pos by (intro placeRows_result) simp_all
  then have loop: "placeRows (splitCharacters s) cpr rc
          (cellSize (calculateA4Layout cpr rc)) family options 0 0 [] =
        (min (length (splitCharacters s)) (nat (rc * cpr)),
         map (glyphAt (splitCharacters s) cpr
                     (cellSize (calculateA4Layout cpr rc)) family options)
                [0 ..< min (length (splitCharacters s)) (nat (rc * cpr))])"
    by (simp only: c r prod append_Nil)
  show ?thesis
    unfolding generateCopybook_def Let_def
    by (simp only: jsval.case cpr_def [symmetric] rc_def [symmetric] family_def [symmetric]
          loop prod.case)
qed


lemma layout_fields:
  "charsPerRow (calculateA4Layout cpr rc) = cpr" "rowCount (calculateA4Layout cpr rc) = rc"
  by (simp_all add: calculateA4Layout_def Let_def)

subsection \<open>Rounding to a double\<close>

lemma bitLength_bounds: "0 < n \<Longrightarrow> 2 ^ (bitLength n - 1) \<le> n \<and> n < 2 ^ bitLength n"
proof (induction n rule: bitLength.induct)
  case (1 n)
  show ?case
  proof (cases "n div 2 = 0")
    case True
    with 1(2) have "n = 1" by (simp add: div_eq_0_iff)
    then show ?thesis by (simp add: bitLength.simps [of "Suc 0"] bitLength.simps [of 0])
  next
    case False
    then have pos: "0 < n div 2" by simp
    from 1(1) [OF _ pos] 1(2)
    have ih: "2 ^ (bitLength (n div 2) - 1) \<le> n div 2" "n div 2 < 2 ^ bitLength (n div 2)" by simp_all
    have bl: "bitLength n = Suc (bitLength (n div 2))"
      using 1(2) by (subst bitLength.simps) simp
    have pos2: "0 < bitLength (n div 2)"
      using pos by (subst bitLength.simps) simp
    have "2 ^ (bitLength n - 1) = 2 * 2 ^ (bitLength (n div 2) - 1)"
      using pos2 bl by (cases "bitLength (n div 2)") simp_all
    also have "\<dots> \<le> 2 * (n div 2)" using ih(1) by simp
    also have "\<dots> \<le> n" by simp
    finally have lo: "2 ^ (bitLength n - 1) \<le> n" .
    have "n < 2 * (n div 2) + 2" by presburger
    also have "\<dots> \<le> 2 * 2 ^ bitLength (n div 2)" using ih(2) by simp
    finally have hi: "n < 2 ^ bitLength n" using bl by simp
    from lo hi show ?thesis ..
  qed
qed

lemma roundHalfEven_error: "\<bar>of_int (roundHalfEven t) - t\<bar> \<le> 1 / 2"
proof -
  have "of_int \<lfloor>t\<rfloor> \<le> t" "t < of_int \<lfloor>t\<rfloor> + 1" by linarith+
  then show ?thesis by (auto simp add: roundHalfEven_def Let_def)
qed

lemma roundHalfEven_of_int: "roundHalfEven (of_int n) = n"
  by (simp add: roundHalfEven_def)


lemma bitLength_pos: "0 < n \<Longrightarrow> 0 < bitLength n"
  by (subst bitLength.simps) simp

lemma bitLength_powi:
  assumes "0 < p"
  shows "2 powi (int (bitLength (nat p)) - 1) \<le> (of_int p :: rat)"
    and "(of_int p :: rat) < 2 powi int (bitLength (nat p))"
proof -
  define bp where "bp = bitLength (nat p)"
  from bitLength_bounds [of "nat p"] assms have "2 ^ (bp - 1) \<le> nat p" "nat p < 2 ^ bp"
    by (simp_all add: bp_def)
  then have "int (2 ^ (bp - 1)) \<le> p" "p < int (2 ^ bp)" using assms by linarith+
  then have "(of_int (int (2 ^ (bp - 1))) :: rat) \<le> of_int p" "(of_int p :: rat) < of_int (int (2 ^ bp))"
    by (simp_all only: of_int_le_iff of_int_less_iff)
  then have P: "(2::rat) ^ (bp - 1) \<le> of_int p" "(of_int p :: rat) < 2 ^ bp" by simp_all
  have "0 < bp" using assms by (simp add: bp_def bitLength_pos)
  then have "int bp - 1 = int (bp - 1)" by simp
  then have "(2::rat) powi (int bp - 1) = 2 ^ (bp - 1)" by (simp only: power_int_of_nat)
  with P show "2 powi (int (bitLength (nat p)) - 1) \<le> (of_int p :: rat)"
    and "(of_int p :: rat) < 2 powi int (bitLength (nat p))" by (simp_all add: bp_def)
qed

lemma binadeExp_bounds:
  assumes "x \<noteq> 0"
  shows "2 powi binadeExp x \<le> \<bar>x\<bar>" and "\<bar>x\<bar> < 2 powi (binadeExp x + 1)"
proof -
  obtain p q where pq: "quotient_of \<bar>x\<bar> = (p, q)" by (cases "quotient_of \<bar>x\<bar>")
  then have q: "0 < q" and x: "\<bar>x\<bar> = of_int p / of_int q"
    by (rule quotient_of_denom_pos, rule quotient_of_div)
  from assms have "0 < \<bar>x\<bar>" by simp
  with x q have p: "0 < p" by (simp add: zero_less_divide_iff)
  define bp where "bp = int (bitLength (nat p))"
  define bq where "bq = int (bitLength (nat q))"
  define b where "b = bp - bq"
  note P = bitLength_powi [OF p, folded bp_def]
  note Q = bitLength_powi [OF q, folded bq_def]
  have pw: "(0::rat) < 2 powi k" for k by (simp add: zero_less_power_int)
  have qpos: "(0::rat) < of_int q" using q by simp
  have "\<bar>x\<bar> * 2 powi (bq - 1) \<le> \<bar>x\<bar> * of_int q"
    using Q(1) \<open>0 < \<bar>x\<bar>\<close> by (simp only: mult_le_cancel_left_pos)
  also have "\<dots> = of_int p" using x qpos by simp
  also have "\<dots> < 2 powi bp" by (rule P(2))
  also have "\<dots> = 2 powi (b + 1) * 2 powi (bq - 1)"
    by (simp add: b_def flip: power_int_add)
  finally have up: "\<bar>x\<bar> < 2 powi (b + 1)" using pw [of "bq - 1"] by (simp only: mult_less_cancel_right_pos)
  have "(2::rat) powi (b - 1) * 2 powi bq = 2 powi (bp - 1)"
    by (simp add: b_def flip: power_int_add)
  also have "\<dots> \<le> of_int p" by (rule P(1))
  also have "\<dots> = \<bar>x\<bar> * of_int q" using x qpos by simp
  also have "\<dots> < \<bar>x\<bar> * 2 powi bq"
    using Q(2) \<open>0 < \<bar>x\<bar>\<close> by (simp only: mult_less_cancel_left_pos)
  finally have lo: "2 powi (b - 1) < \<bar>x\<bar>" using pw [of bq] by (simp only: mult_less_cancel_right_pos)
  have be: "binadeExp x = (if 2 powi b \<le> \<bar>x\<bar> then b else b - 1)"
    by (simp add: binadeExp_def pq Let_def b_def bp_def bq_def)
  show "2 powi binadeExp x \<le> \<bar>x\<bar>" using lo by (simp add: be)
  show "\<bar>x\<bar> < 2 powi (binadeExp x + 1)" using up by (simp add: be)
qed

lemma powi_less_imp_less: "(2::rat) powi a \<le> y \<Longrightarrow> y < 2 powi b \<Longrightarrow> a < b"
  by (meson le_less_trans one_less_numeral_iff power_int_strict_increasing not_less power_int_increasing semiring_norm(76) less_imp_le not_le)

lemma binadeExp_eqI:
  assumes "2 powi b \<le> \<bar>x\<bar>" "\<bar>x\<bar> < 2 powi (b + 1)"
  shows "binadeExp x = b"
proof -
  have "(0::rat) < 2 powi b" by (simp add: zero_less_power_int)
  with assms(1) have "0 < \<bar>x\<bar>" by linarith
  then have "x \<noteq> 0" by simp
  note B = binadeExp_bounds [OF this]
  have "b < binadeExp x + 1" using assms(1) B(2) by (rule powi_less_imp_less)
  moreover have "binadeExp x < b + 1" using B(1) assms(2) by (rule powi_less_imp_less)
  ultimately show ?thesis by simp
qed





lemma fl_eqI:
  assumes "2 powi b \<le> \<bar>x\<bar>" "\<bar>x\<bar> < 2 powi (b + 1)"
    and "roundHalfEven (x / 2 powi (b - 52)) = m"
  shows "fl x = of_int m * 2 powi (b - 52)"
proof -
  have "(0::rat) < 2 powi b" by (simp add: zero_less_power_int)
  with assms(1) have "0 < \<bar>x\<bar>" by linarith
  then have "x \<noteq> 0" by simp
  then show ?thesis by (simp add: fl_def binadeExp_eqI [OF assms(1,2)] assms(3))
qed

lemma roundHalfEven_eqI:
  assumes "\<bar>t - of_int m\<bar> < 1 / 2"
  shows "roundHalfEven t = m"
proof -
  have "\<bar>of_int (roundHalfEven t) - t\<bar> \<le> 1 / 2" by (rule roundHalfEven_error)
  with assms have "\<bar>(of_int (roundHalfEven t) :: rat) - of_int m\<bar> < 1" by linarith
  then have "\<bar>roundHalfEven t - m\<bar> < 1" by (metis of_int_diff of_int_abs of_int_less_1_iff)
  then show ?thesis by simp
qed


lemma fl_value:
  assumes "2 powi b \<le> \<bar>x\<bar>" "\<bar>x\<bar> < 2 powi (b + 1)"
    and "\<bar>x / 2 powi (b - 52) - of_int m\<bar> < 1 / 2"
    and "y = of_int m * 2 powi (b - 52)"
  shows "fl x = y"
  using fl_eqI [OF assms(1,2) roundHalfEven_eqI [OF assms(3)]] assms(4) by simp


text \<open>An integer of at most 53 bits is a double, and \<open>parseInt\<close> returns it.\<close>

lemma fl_of_int_exact:
  assumes "\<bar>n\<bar> < 2 ^ 53"
  shows "fl (of_int n) = of_int n"
proof (cases "n = 0")
  case True
  then show ?thesis by (simp add: fl_def)
next
  case False
  define x :: rat where "x = of_int n"
  have x0: "x \<noteq> 0" using False by (simp add: x_def)
  have "\<bar>x\<bar> = of_int \<bar>n\<bar>" by (simp add: x_def)
  also have "\<dots> < of_int (2 ^ 53)" using assms by (simp only: of_int_less_iff)
  finally have "\<bar>x\<bar> < 2 powi 53" by simp
  with binadeExp_bounds(1) [OF x0] have "binadeExp x < 53" by (rule powi_less_imp_less)
  define k where "k = nat (52 - binadeExp x)"
  have e: "binadeExp x - 52 = - int k" using \<open>binadeExp x < 53\<close> by (simp add: k_def)
  have p: "(2::rat) powi (- int k) = 1 / 2 ^ k" by (simp add: power_int_minus_divide)
  have "x / 2 powi (- int k) = of_int (n * 2 ^ k)"
    by (simp add: p x_def)
  then have "x / 2 powi (binadeExp x - 52) = of_int (n * 2 ^ k)"
    by (simp only: e)
  then have "roundHalfEven (x / 2 powi (binadeExp x - 52)) = n * 2 ^ k"
    by (simp only: roundHalfEven_of_int)
  then have "fl x = of_int (n * 2 ^ k) * 2 powi (binadeExp x - 52)"
    using x0 by (simp add: fl_def)
  also have "\<dots> = of_int (n * 2 ^ k) * 2 powi (- int k)" by (simp only: e)
  also have "\<dots> = x" by (simp add: p x_def)
  finally show ?thesis by (simp only: x_def)
qed

lemma parseIntNumber_exact [simp]:
  assumes "\<bar>n\<bar> < 2 ^ 53"
  shows "parseIntNumber n = Some n"
proof -
  have a: "\<bar>\<bar>n\<bar>\<bar> < 2 ^ 53" using assms by simp
  have x: "fl (of_int \<bar>n\<bar>) = of_int \<bar>n\<bar>" by (rule fl_of_int_exact [OF a])
  have "\<bar>n\<bar> < 2 ^ 1024" "\<bar>n\<bar> < 10 ^ 21" using assms by simp_all
  then have "(of_int \<bar>n\<bar> :: rat) < of_int (2 ^ 1024)" "(of_int \<bar>n\<bar> :: rat) < of_int (10 ^ 21)"
    by (simp_all only: of_int_less_iff)
  then have b: "\<not> (2 ^ 1024 \<le> (of_int \<bar>n\<bar> :: rat))" "(of_int \<bar>n\<bar> :: rat) < 10 ^ 21"
    by simp_all
  have "sgn n * \<bar>n\<bar> = n" by (simp add: mult.commute abs_mult_sgn)
  then show ?thesis
    unfolding parseIntNumber_def Let_def x using b by (simp only: if_False if_True floor_of_int)
qed

text \<open>From \<open>10^21\<close> on the result is the first digit: \<open>parseInt(1e21)\<close> is 1.\<close>

lemma decimalLength_1e21: "decimalLength 1000000000000000000000 = 22"
  by (simp add: decimalLength.simps)

lemma fl_1e21: "fl 1000000000000000000000 = 1000000000000000000000"
  by (rule fl_value [where b = 69 and m = 7629394531250000]) simp_all

lemma fl_2e21: "fl 2000000000000000000000 = 2000000000000000000000"
  by (rule fl_value [where b = 70 and m = 7629394531250000]) simp_all

lemma shortestDigits_1e21: "shortestDigits 1000000000000000000000 (Suc 0) = Some 1"
  by (simp add: shortestDigits_def decimalLength_1e21 Let_def fl_1e21 fl_2e21)

lemma leadingDigit_1e21: "leadingDigit 1000000000000000000000 (Suc 0) = 1"
  by (subst leadingDigit.simps) (simp add: shortestDigits_1e21)

lemma parseIntNumber_1e21: "parseIntNumber (10 ^ 21) = Some 1"
  by (simp add: parseIntNumber_def Let_def fl_1e21 leadingDigit_1e21)

subsection \<open>Parsing the counts\<close>






subsection \<open>Opacity of the draw calls\<close>

lemma glyph_alpha_glyphAt:
  "glyph_alpha (glyphAt characters cpr cell family options i)
     = (if practiceMode options then setGlobalAlpha 1 (numberOr (guideOpacity options) (3 / 10))
        else 1)"
  by (simp add: glyphAt_def drawCharacter_def)

lemma alphas_generateCopybook:
  "\<exists>res. generateCopybook loadedFonts (JStr s) fontType cprArg rcArg options = Inr res
     \<and> map glyph_alpha (glyphs (canvas res))
         = replicate (charactersDrawn res)
             (if practiceMode options
              then setGlobalAlpha 1 (numberOr (guideOpacity options) (3 / 10)) else 1)"
  unfolding generateCopybook_string
  by (simp add: glyph_alpha_glyphAt map_replicate_const comp_def)

subsection \<open>Pages and slices\<close>

lemma pageCount_less: "0 < p \<Longrightarrow> k < pageCount n p \<longleftrightarrow> k * p < n"
proof -
  assume p: "0 < p"
  have "k < pageCount n p \<longleftrightarrow> int k < \<lceil>(of_nat n :: rat) / of_nat p\<rceil>"
    by (simp add: pageCount_def zless_nat_eq_int_zless)
  also have "\<dots> \<longleftrightarrow> (of_nat k :: rat) < of_nat n / of_nat p"
    by (simp add: less_ceiling_iff)
  also have "\<dots> \<longleftrightarrow> (of_nat k :: rat) * of_nat p < of_nat n"
    using p by (simp add: pos_less_divide_eq)
  also have "\<dots> \<longleftrightarrow> k * p < n"
    by (simp flip: of_nat_mult)
  finally show ?thesis .
qed

lemma ceilDiv_pos: "0 < p \<Longrightarrow> ceilDiv n (int p) = Fin (int (pageCount n p))"
proof -
  assume "0 < p"
  have "(0::rat) \<le> of_nat n / of_nat p" by simp
  then have "\<lceil>0::rat\<rceil> \<le> \<lceil>(of_nat n :: rat) / of_nat p\<rceil>" by (rule ceiling_mono)
  then have "0 \<le> \<lceil>(of_nat n :: rat) / of_nat p\<rceil>" by simp
  then show ?thesis using \<open>0 < p\<close> by (simp add: ceilDiv_def pageCount_def)
qed

lemma pageChars_eq:
  "pageChars characters p i = take p (drop (i * p) characters)"
  unfolding pageChars_def
proof (rule nth_equalityI)
  show "length (map (\<lambda>j. characters ! j) [i * p ..< min ((i + 1) * p) (length characters)])
      = length (take p (drop (i * p) characters))"
    by (auto simp: min_def)
next
  fix j
  assume "j < length (map (\<lambda>j. characters ! j) [i * p ..< min ((i + 1) * p) (length characters)])"
  then have "j < p" "i * p + j < length characters"
    by (auto simp: min_def split: if_splits)
  then show "map (\<lambda>j. characters ! j) [i * p ..< min ((i + 1) * p) (length characters)] ! j
      = take p (drop (i * p) characters) ! j"
    by (simp add: min_def)
qed

lemma slice_nat:
  "slice xs (int a) (int b)
     = take (min b (length xs) - min a (length xs)) (drop (min a (length xs)) xs)"
proof -
  have neg: "\<not> int a < 0" "\<not> int b < 0" by simp_all
  have mins: "min (int a) (int (length xs)) = int (min a (length xs))"
    "min (int b) (int (length xs)) = int (min b (length xs))"
    by (simp_all only: of_nat_min)
  have diff: "nat (int (min b (length xs)) - int (min a (length xs)))
      = min b (length xs) - min a (length xs)"
    by (simp only: nat_minus_as_int [symmetric] nat_int)
  show ?thesis
    unfolding slice_def Let_def
    by (simp only: neg if_False mins diff nat_int)
qed

lemma slice_page:
  assumes "0 < p"
  shows "slice characters (int i * int p) (min (int i * int p + int p) (int (length characters)))
      = pageChars characters p i"
proof -
  let ?n = "length characters"
  have stop: "min (int (i * p) + int p) (int ?n) = int (min (i * p + p) ?n)"
    by (simp only: of_nat_add [symmetric] of_nat_min)
  have start: "int i * int p = int (i * p)" by simp
  have "take (min (min (i * p + p) ?n) ?n - min (i * p) ?n) (drop (min (i * p) ?n) characters)
      = take p (drop (i * p) characters)"
    by (cases "i * p \<le> ?n") (auto simp: min_def)
  then show ?thesis by (simp only: stop start pageChars_eq slice_nat)
qed

lemma pageChars_split:
  "pageChars (splitCharacters s) p i = map (\<lambda>c. [c]) (take p (drop (i * p) (stripWhitespace s)))"
  by (simp only: pageChars_eq splitCharacters_eq drop_map take_map)

lemma splitCharacters_page:
  "splitCharacters (concat (pageChars (splitCharacters s) p i)) = pageChars (splitCharacters s) p i"
proof -
  let ?xs = "stripWhitespace s"
  let ?zs = "take p (drop (i * p) ?xs)"
  have "set ?zs \<subseteq> set (drop (i * p) ?xs)" by (rule set_take_subset)
  also have "\<dots> \<subseteq> set ?xs" by (rule set_drop_subset)
  finally have sub: "set ?zs \<subseteq> set ?xs" .
  have nows: "\<not> isWhiteSpace c" if "c \<in> set ?zs" for c
  proof -
    from that sub have "c \<in> set ?xs" by blast
    then show ?thesis unfolding stripWhitespace_def by simp
  qed
  have "filter (\<lambda>c. \<not> isWhiteSpace c) ?zs = ?zs"
    by (rule filter_True) (simp add: nows)
  then have strip: "stripWhitespace ?zs = ?zs"
    by (simp only: stripWhitespace_def)
  have cat: "concat (map (\<lambda>c. [c]) ?zs) = ?zs" by simp
  show ?thesis
    by (simp only: pageChars_split cat splitCharacters_eq [of ?zs] strip)
qed

lemma length_concat_page:
  "length (concat (pageChars (splitCharacters s) p i)) = length (pageChars (splitCharacters s) p i)"
  by (simp add: pageChars_eq splitCharacters_eq take_map drop_map concat_map_singleton)

lemma length_pageChars:
  "length (pageChars characters p i) = min p (length characters - i * p)"
  by (simp add: pageChars_eq)

lemma generateCopybook_fields:
  "\<exists>res. generateCopybook loadedFonts (JStr s) fontType cprArg rcArg options = Inr res
     \<and> layout res = calculateA4Layout (max 1 (min 20 (parseIntOr (withDefault 15 cprArg) 15)))
          (max 1 (min 30 (parseIntOr (withDefault 5 rcArg) 5)))
     \<and> totalCharacters res = length (splitCharacters s)
     \<and> charactersDrawn res = min (length (splitCharacters s))
          (nat (max 1 (min 30 (parseIntOr (withDefault 5 rcArg) 5))
               * max 1 (min 20 (parseIntOr (withDefault 15 cprArg) 15))))"
  by (rule exI, rule conjI, rule generateCopybook_string) (simp only: copybook.simps simp_thms)

text \<open>The canvas of a page is always a result.\<close>

lemma pageCanvas_string:
  "\<exists>res. pageCanvas loadedFonts fontType cpr rc practice opacity pageText = Inr res
     \<and> layout res = calculateA4Layout (max 1 (min 20 (parseIntOr (JNum (Fin cpr)) 15)))
          (max 1 (min 30 (parseIntOr (JNum (actualRowCount rc cpr (length pageText))) 5)))
     \<and> totalCharacters res = length (splitCharacters pageText)
     \<and> charactersDrawn res = min (length (splitCharacters pageText))
          (nat (max 1 (min 30 (parseIntOr (JNum (actualRowCount rc cpr (length pageText))) 5))
               * max 1 (min 20 (parseIntOr (JNum (Fin cpr)) 15))))"
proof -
  have wd: "withDefault d (JNum x) = JNum x" for d x by (simp add: withDefault_def)
  show ?thesis
  proof (cases practice)
    case True
    then have "pageCanvas loadedFonts fontType cpr rc practice opacity pageText
        = generateCopybook loadedFonts (JStr pageText) fontType (JNum (Fin cpr))
            (JNum (actualRowCount rc cpr (length pageText)))
            \<lparr> practiceMode = True, guideOpacity = Some opacity \<rparr>"
      by (simp add: pageCanvas_def generatePracticeCopybook_def)
    then show ?thesis
      using generateCopybook_fields [of loadedFonts pageText fontType "JNum (Fin cpr)"
          "JNum (actualRowCount rc cpr (length pageText))"
          "\<lparr> practiceMode = True, guideOpacity = Some opacity \<rparr>"]
      by (simp only: wd)
  next
    case False
    then have "pageCanvas loadedFonts fontType cpr rc practice opacity pageText
        = generateCopybook loadedFonts (JStr pageText) fontType (JNum (Fin cpr))
            (JNum (actualRowCount rc cpr (length pageText)))
            \<lparr> practiceMode = False, guideOpacity = None \<rparr>"
      by (simp add: pageCanvas_def)
    then show ?thesis
      using generateCopybook_fields [of loadedFonts pageText fontType "JNum (Fin cpr)"
          "JNum (actualRowCount rc cpr (length pageText))"
          "\<lparr> practiceMode = False, guideOpacity = None \<rparr>"]
      by (simp only: wd)
  qed
qed

subsection \<open>The page loop\<close>

lemma pageCanvas_Inr:
  "pageCanvas loadedFonts fontType cpr rc practice opacity (concat (pageChars characters p i))
     = Inr (pageResult loadedFonts fontType cpr rc practice opacity characters p i)"
  using pageCanvas_string [of loadedFonts fontType cpr rc practice opacity
      "concat (pageChars characters p i)"]
  unfolding pageResult_def by (elim exE conjE) simp

lemma pageLoop_stop:
  "\<not> lessNum (int k) pages \<Longrightarrow>
   pageLoop loadedFonts characters fontType cpr rc practice opacity pb pages k processed doc
     = Inr (processed, doc)"
  by (subst pageLoop.simps) simp

lemma pageLoop_step:
  assumes "lessNum (int k) pages"
    and "concat (slice characters (int k * pb) (min (int k * pb + pb) (int (length characters))))
          = pageText"
    and "pageText \<noteq> []"
    and "pageCanvas loadedFonts fontType cpr rc practice opacity pageText = Inr res"
  shows "pageLoop loadedFonts characters fontType cpr rc practice opacity pb pages k processed doc
     = pageLoop loadedFonts characters fontType cpr rc practice opacity pb pages (k + 1)
         (processed + charactersDrawn res)
         (doc @ [\<lparr> page_text = pageText, page_canvas = res,
                   page_image = placeImage (width (canvas res)) (height (canvas res)),
                   page_number = k + 1, page_of = pages \<rparr>])"
  apply (subst pageLoop.simps)
  apply (simp only: Let_def assms(2))
  apply (simp add: assms(1,3,4))
  done

lemma pageLoop_result:
  assumes p: "0 < p" and chars: "characters = splitCharacters s"
    and k: "k \<le> pageCount (length characters) p"
  shows "pageLoop loadedFonts characters fontType cpr rc practice opacity (int p)
           (Fin (int (pageCount (length characters) p))) k processed doc
     = Inr (processed + sum_list (map (\<lambda>i. charactersDrawn
                  (pageResult loadedFonts fontType cpr rc practice opacity characters p i))
                [k ..< pageCount (length characters) p]),
            doc @ map (pageRecord loadedFonts fontType cpr rc practice opacity characters p)
                    [k ..< pageCount (length characters) p])"
  using k
proof (induction "pageCount (length characters) p - k" arbitrary: k processed doc)
  case 0
  then have "k = pageCount (length characters) p" by simp
  then show ?case by (simp add: pageLoop_stop lessNum_def)
next
  case (Suc d)
  let ?T = "pageCount (length characters) p"
  from Suc have lt: "k < ?T" by simp
  then have less: "lessNum (int k) (Fin (int ?T))" by (simp add: lessNum_def)
  from lt p have inside: "k * p < length characters" by (simp add: pageCount_less)
  have ptext: "concat (slice characters (int k * int p)
        (min (int k * int p + int p) (int (length characters))))
      = concat (pageChars characters p k)"
    by (simp only: slice_page [OF p])
  have len: "length (concat (pageChars characters p k)) = min p (length characters - k * p)"
    unfolding chars by (simp only: length_concat_page length_pageChars)
  have "0 < min p (length characters - k * p)" using inside p by simp
  then have "0 < length (concat (pageChars characters p k))" by (simp only: len)
  then have nonempty: "concat (pageChars characters p k) \<noteq> []"
    by (rule iffD1 [OF length_greater_0_conv])
  have d: "d = ?T - (k + 1)" using Suc.hyps(2) by simp
  have next_le: "k + 1 \<le> ?T" using lt by simp
  have upt: "[k ..< ?T] = k # [k + 1 ..< ?T]" using lt by (simp add: upt_conv_Cons)
  show ?case
    apply (subst pageLoop_step [OF less ptext nonempty pageCanvas_Inr])
    apply (subst Suc.hyps(1) [OF d next_le])
    apply (simp only: upt list.map sum_list.Cons)
    apply (simp add: pageRecord_def)
    done
qed

text \<open>What \<open>generateMultiPagePDF\<close> returns for a string and a positive page size.\<close>

lemma generateMultiPagePDF_string:
  fixes s :: jsstring and options :: pdf_options
  assumes "0 < pageBreakAfterOf options"
  defines "p \<equiv> nat (pageBreakAfterOf options)"
  defines "characters \<equiv> splitCharacters s"
  shows "generateMultiPagePDF loadedFonts (JStr s) options =
     Inr \<lparr> pdf = map (pageRecord loadedFonts (fontTypeOf options) (charsPerRowOf options)
                       (rowCountOf options) (opt_practiceMode options) (guideOpacityOf options)
                       characters p)
                  [0 ..< pageCount (length characters) p],
           totalPages = Fin (int (pageCount (length characters) p)),
           doc_charactersDrawn =
             sum_list (map (\<lambda>i. charactersDrawn
                  (pageResult loadedFonts (fontTypeOf options) (charsPerRowOf options)
                       (rowCountOf options) (opt_practiceMode options) (guideOpacityOf options)
                       characters p i))
                [0 ..< pageCount (length characters) p]),
           doc_totalCharacters = length characters \<rparr>"
proof -
  from assms(1) have p: "0 < p" and pb: "pageBreakAfterOf options = int p"
    by (simp_all add: p_def)
  have chars: "characters = splitCharacters s" by (simp only: characters_def)
  have loop: "pageLoop loadedFonts characters (fontTypeOf options) (charsPerRowOf options)
      (rowCountOf options) (opt_practiceMode options) (guideOpacityOf options) (int p)
      (Fin (int (pageCount (length characters) p))) 0 0 [] =
      Inr (0 + sum_list (map (\<lambda>i. charactersDrawn
                  (pageResult loadedFonts (fontTypeOf options) (charsPerRowOf options)
                       (rowCountOf options) (opt_practiceMode options) (guideOpacityOf options)
                       characters p i))
                [0 ..< pageCount (length characters) p]),
           [] @ map (pageRecord loadedFonts (fontTypeOf options) (charsPerRowOf options)
                       (rowCountOf options) (opt_practiceMode options) (guideOpacityOf options)
                       characters p)
                  [0 ..< pageCount (length characters) p])"
    by (rule pageLoop_result [OF p chars]) simp
  show ?thesis
    unfolding generateMultiPagePDF_def Let_def
    by (simp only: jsval.case pb ceilDiv_pos [OF p] chars [symmetric] loop
          sum.case prod.case add_0 append_Nil)
qed

text \<open>With a page size of 0 or less the loop adds no page.\<close>

lemma pageLoop_break:
  assumes "concat (slice characters (int k * pb) (min (int k * pb + pb) (int (length characters)))) = []"
  shows "pageLoop loadedFonts characters fontType cpr rc practice opacity pb pages k processed doc
     = Inr (processed, doc)"
  apply (subst pageLoop.simps)
  apply (simp only: Let_def assms)
  apply simp
  done

lemma generateMultiPagePDF_nonpositive:
  assumes "pageBreakAfterOf options \<le> 0"
  shows "generateMultiPagePDF loadedFonts (JStr s) options =
     Inr \<lparr> pdf = [],
           totalPages = ceilDiv (length (splitCharacters s)) (pageBreakAfterOf options),
           doc_charactersDrawn = 0,
           doc_totalCharacters = length (splitCharacters s) \<rparr>"
proof -
  define pb where "pb = pageBreakAfterOf options"
  define characters where "characters = splitCharacters s"
  have loop: "pageLoop loadedFonts characters (fontTypeOf options) (charsPerRowOf options)
      (rowCountOf options) (opt_practiceMode options) (guideOpacityOf options) pb
      (ceilDiv (length characters) pb) 0 0 [] = Inr (0, [])"
  proof (cases "pb = 0")
    case True
    have "slice characters 0 (min 0 (int (length characters))) = []"
      by (simp add: slice_def Let_def)
    then show ?thesis
      by (intro pageLoop_break) (simp add: True)
  next
    case False
    with assms have neg: "pb < 0" by (simp add: pb_def)
    have "(of_nat (length characters) :: rat) / of_int pb \<le> 0"
      using neg by (simp add: divide_nonneg_neg zero_le_divide_iff divide_le_0_iff)
    then have "\<lceil>(of_nat (length characters) :: rat) / of_int pb\<rceil> \<le> 0"
      by (simp only: ceiling_le_zero)
    then have "\<not> lessNum (int 0) (ceilDiv (length characters) pb)"
      using neg by (simp add: lessNum_def ceilDiv_def)
    then show ?thesis by (rule pageLoop_stop)
  qed
  show ?thesis
    unfolding generateMultiPagePDF_def Let_def
    by (simp only: jsval.case pb_def [symmetric] characters_def [symmetric] loop
          sum.case prod.case)
qed

lemma concat_pages_take:
  "concat (map (pageChars xs p) [0 ..< k]) = take (k * p) xs"
proof (induction k)
  case 0
  show ?case by simp
next
  case (Suc k)
  have "take (k * p + p) xs = take (k * p) xs @ take p (drop (k * p) xs)"
    by (rule take_add)
  with Suc show ?case by (simp add: pageChars_eq add.commute)
qed

lemma concat_pages:
  assumes "0 < p"
  shows "concat (map (pageChars xs p) [0 ..< pageCount (length xs) p]) = xs"
proof -
  have "\<not> pageCount (length xs) p * p < length xs"
    using pageCount_less [OF assms, of "pageCount (length xs) p" "length xs"] by simp
  then show ?thesis by (simp add: concat_pages_take)
qed

lemma pageCount_ceiling:
  "int (pageCount n p) = \<lceil>(of_nat n :: rat) / of_int (int p)\<rceil>"
proof -
  have "(0::rat) \<le> of_nat n / of_nat p" by simp
  then have "\<lceil>0::rat\<rceil> \<le> \<lceil>(of_nat n :: rat) / of_nat p\<rceil>" by (rule ceiling_mono)
  then show ?thesis by (simp add: pageCount_def)
qed

lemma page_fields:
  "page_text (pageRecord loadedFonts fontType cpr rc practice opacity characters p i)
     = concat (pageChars characters p i)"
  "page_number (pageRecord loadedFonts fontType cpr rc practice opacity characters p i) = i + 1"
  "page_canvas (pageRecord loadedFonts fontType cpr rc practice opacity characters p i)
     = pageResult loadedFonts fontType cpr rc practice opacity characters p i"
  "page_image (pageRecord loadedFonts fontType cpr rc practice opacity characters p i)
     = placeImage
         (width (canvas (pageResult loadedFonts fontType cpr rc practice opacity characters p i)))
         (height (canvas (pageResult loadedFonts fontType cpr rc practice opacity characters p i)))"
  by (simp_all add: pageRecord_def)

lemma concat_map_concat_upt:
  "concat (map (\<lambda>i. concat (f i)) js) = concat (concat (map f js))"
  by (induction js) simp_all

lemma concat_page_texts:
  assumes "0 < p"
  shows "concat (map (\<lambda>i. concat (pageChars (splitCharacters s) p i))
           [0 ..< pageCount (length (splitCharacters s)) p]) = stripWhitespace s"
proof -
  have "concat (map (\<lambda>i. concat (pageChars (splitCharacters s) p i))
           [0 ..< pageCount (length (splitCharacters s)) p])
      = concat (concat (map (pageChars (splitCharacters s) p)
           [0 ..< pageCount (length (splitCharacters s)) p]))"
    by (rule concat_map_concat_upt)
  then show ?thesis by (simp only: concat_pages [OF assms] concat_splitCharacters)
qed

lemma exampleOptions_fields:
  "pageBreakAfterOf (exampleOptions cpr rc perPage) = perPage"
  "charsPerRowOf (exampleOptions cpr rc perPage) = cpr"
  "rowCountOf (exampleOptions cpr rc perPage) = rc"
  by (simp_all add: exampleOptions_def pageBreakAfterOf_def charsPerRowOf_def rowCountOf_def)

lemma exampleText_stream:
  "stripWhitespace exampleText = [0x4F60, 0x597D, 0x4E16, 0x754C, 0x5B57]"
  "splitCharacters exampleText = [[0x4F60], [0x597D], [0x4E16], [0x754C], [0x5B57]]"
  by (simp_all add: splitCharacters_eq stripWhitespace_def exampleText_def isWhiteSpace_def)

subsection \<open>The grid of a page\<close>

lemma pageResult_fields:
  "layout (pageResult loadedFonts fontType cpr rc practice opacity (splitCharacters s) p i)
     = calculateA4Layout (max 1 (min 20 (parseIntOr (JNum (Fin cpr)) 15)))
         (max 1 (min 30 (parseIntOr
            (JNum (actualRowCount rc cpr (length (pageChars (splitCharacters s) p i)))) 5)))"
  "totalCharacters (pageResult loadedFonts fontType cpr rc practice opacity (splitCharacters s) p i)
     = length (pageChars (splitCharacters s) p i)"
  "charactersDrawn (pageResult loadedFonts fontType cpr rc practice opacity (splitCharacters s) p i)
     = min (length (pageChars (splitCharacters s) p i))
         (nat (max 1 (min 30 (parseIntOr
                 (JNum (actualRowCount rc cpr (length (pageChars (splitCharacters s) p i)))) 5))
               * max 1 (min 20 (parseIntOr (JNum (Fin cpr)) 15))))"
proof -
  from pageCanvas_string [of loadedFonts fontType cpr rc practice opacity
      "concat (pageChars (splitCharacters s) p i)"]
  obtain res where
    res: "pageCanvas loadedFonts fontType cpr rc practice opacity
            (concat (pageChars (splitCharacters s) p i)) = Inr res"
    and l: "layout res = calculateA4Layout (max 1 (min 20 (parseIntOr (JNum (Fin cpr)) 15)))
          (max 1 (min 30 (parseIntOr (JNum (actualRowCount rc cpr
             (length (concat (pageChars (splitCharacters s) p i))))) 5)))"
    and t: "totalCharacters res
          = length (splitCharacters (concat (pageChars (splitCharacters s) p i)))"
    and d: "charactersDrawn res
          = min (length (splitCharacters (concat (pageChars (splitCharacters s) p i))))
          (nat (max 1 (min 30 (parseIntOr (JNum (actualRowCount rc cpr
                  (length (concat (pageChars (splitCharacters s) p i))))) 5))
               * max 1 (min 20 (parseIntOr (JNum (Fin cpr)) 15))))"
    by blast
  from res have eq: "pageResult loadedFonts fontType cpr rc practice opacity
      (splitCharacters s) p i = res"
    by (simp add: pageResult_def)
  show "layout (pageResult loadedFonts fontType cpr rc practice opacity (splitCharacters s) p i)
     = calculateA4Layout (max 1 (min 20 (parseIntOr (JNum (Fin cpr)) 15)))
         (max 1 (min 30 (parseIntOr
            (JNum (actualRowCount rc cpr (length (pageChars (splitCharacters s) p i)))) 5)))"
    using l by (simp only: eq length_concat_page)
  show "totalCharacters (pageResult loadedFonts fontType cpr rc practice opacity (splitCharacters s) p i)
     = length (pageChars (splitCharacters s) p i)"
    using t by (simp only: eq splitCharacters_page)
  show "charactersDrawn (pageResult loadedFonts fontType cpr rc practice opacity (splitCharacters s) p i)
     = min (length (pageChars (splitCharacters s) p i))
         (nat (max 1 (min 30 (parseIntOr
                 (JNum (actualRowCount rc cpr (length (pageChars (splitCharacters s) p i)))) 5))
               * max 1 (min 20 (parseIntOr (JNum (Fin cpr)) 15))))"
    using d by (simp only: eq splitCharacters_page length_concat_page)
qed

lemma ceiling_rows:
  assumes "0 < (c::int)"
  shows "int n \<le> \<lceil>(of_nat n :: rat) / of_int c\<rceil> * c"
    and "(\<lceil>(of_nat n :: rat) / of_int c\<rceil> - 1) * c < int n"
    and "0 < n \<Longrightarrow> 1 \<le> \<lceil>(of_nat n :: rat) / of_int c\<rceil>"
    and "c * r \<le> int n \<Longrightarrow> r \<le> \<lceil>(of_nat n :: rat) / of_int c\<rceil>"
    and "int n \<le> c * r \<Longrightarrow> \<lceil>(of_nat n :: rat) / of_int c\<rceil> \<le> r"
proof -
  let ?m = "\<lceil>(of_nat n :: rat) / of_int c\<rceil>"
  from assms have c: "(0::rat) < of_int c" by simp
  have "(of_nat n :: rat) \<le> of_int ?m * of_int c"
    by (rule ceiling_divide_upper [OF c])
  then have "(of_int (int n) :: rat) \<le> of_int (?m * c)" by simp
  then show "int n \<le> ?m * c" by (simp only: of_int_le_iff)
  have "(of_int ?m - 1) * of_int c < (of_nat n :: rat)"
    by (rule ceiling_divide_lower [OF c])
  then have "(of_int ((?m - 1) * c) :: rat) < of_int (int n)" by simp
  then show "(?m - 1) * c < int n" by (simp only: of_int_less_iff)
  show "1 \<le> ?m" if "0 < n"
  proof -
    from that c have "(0::rat) < of_nat n / of_int c" by simp
    then have "0 < ?m" by (simp add: less_ceiling_iff)
    then show ?thesis by simp
  qed
  show "r \<le> ?m" if "c * r \<le> int n"
  proof -
    from that have "(of_int (c * r) :: rat) \<le> of_int (int n)" by (simp only: of_int_le_iff)
    then have "(of_int r :: rat) * of_int c \<le> of_nat n" by (simp add: mult.commute)
    with c have "(of_int r :: rat) \<le> of_nat n / of_int c" by (simp add: pos_le_divide_eq)
    also have "\<dots> \<le> of_int ?m" by (rule le_of_int_ceiling)
    finally show ?thesis by (simp only: of_int_le_iff)
  qed
  show "?m \<le> r" if "int n \<le> c * r"
  proof -
    from that have "(of_int (int n) :: rat) \<le> of_int (c * r)" by (simp only: of_int_le_iff)
    then have "(of_nat n :: rat) \<le> of_int r * of_int c" by (simp add: mult.commute)
    with c have "(of_nat n :: rat) / of_int c \<le> of_int r" by (simp add: pos_divide_le_eq)
    then show ?thesis by (simp only: ceiling_le_iff)
  qed
qed

lemma clamp_rows:
  "1 \<le> r \<Longrightarrow> r \<le> 30 \<Longrightarrow> max 1 (min 30 (parseIntOr (JNum (Fin r)) d)) = r"
  by (simp add: parseIntOr_def)

lemma clamp_cols:
  "1 \<le> r \<Longrightarrow> r \<le> 20 \<Longrightarrow> max 1 (min 20 (parseIntOr (JNum (Fin r)) d)) = r"
  by (simp add: parseIntOr_def)

lemma page_counts_in_range:
  assumes "1 \<le> cpr" and "cpr \<le> 20" and "1 \<le> rc" and "rc \<le> 30" and "0 < len"
  shows "max 1 (min 30 (parseIntOr (JNum (actualRowCount rc cpr len)) 5))
           = min rc \<lceil>(of_nat len :: rat) / of_int cpr\<rceil>"
    and "max 1 (min 20 (parseIntOr (JNum (Fin cpr)) 15)) = cpr"
proof -
  let ?m = "\<lceil>(of_nat len :: rat) / of_int cpr\<rceil>"
  from assms have c: "0 < cpr" by simp
  have m: "1 \<le> ?m" by (rule ceiling_rows(3) [OF c assms(5)])
  have "actualRowCount rc cpr len = Fin (min rc ?m)"
    using c by (simp add: actualRowCount_def minNum_def ceilDiv_def)
  moreover from assms(3) m have "1 \<le> min rc ?m" by (rule min.boundedI)
  moreover from assms(4) have "min rc ?m \<le> 30" by (rule min.coboundedI1)
  ultimately show "max 1 (min 30 (parseIntOr (JNum (actualRowCount rc cpr len)) 5)) = min rc ?m"
    by (simp only: clamp_rows)
  show "max 1 (min 20 (parseIntOr (JNum (Fin cpr)) 15)) = cpr"
    using assms(1,2) by (rule clamp_cols)
qed

lemma page_nonempty:
  assumes "0 < p" and "i < pageCount (length characters) p"
  shows "0 < length (pageChars characters p i)"
proof -
  from assms have "i * p < length characters" by (simp add: pageCount_less)
  with assms(1) show ?thesis by (simp add: length_pageChars)
qed

lemma page_rows:
  fixes loadedFonts :: "jsstring \<rightharpoonup> jsstring" and fontType :: jsval
    and practice :: bool and opacity :: rat and s :: jsstring
  assumes "1 \<le> cpr" and "cpr \<le> 20" and "1 \<le> rc" and "rc \<le> 30"
    and "0 < p" and "i < pageCount (length (splitCharacters s)) p"
  defines "len \<equiv> length (pageChars (splitCharacters s) p i)"
  defines "L \<equiv> layout (pageResult loadedFonts fontType cpr rc practice opacity
                     (splitCharacters s) p i)"
  shows "rowCount L = min rc \<lceil>(of_nat len :: rat) / of_int cpr\<rceil>"
    and "charsPerRow L = cpr"
    and "cpr * rc \<le> int len \<longrightarrow> rowCount L = rc"
    and "int len \<le> cpr * rc \<longrightarrow> int len \<le> rowCount L * cpr \<and> (rowCount L - 1) * cpr < int len"
proof -
  let ?m = "\<lceil>(of_nat len :: rat) / of_int cpr\<rceil>"
  from assms(1) have c: "0 < cpr" by simp
  have len: "0 < len" unfolding len_def by (rule page_nonempty [OF assms(5,6)])
  have L: "L = calculateA4Layout cpr (min rc ?m)"
    unfolding L_def pageResult_fields len_def [symmetric]
    by (simp only: page_counts_in_range [OF assms(1-4) len])
  show rows: "rowCount L = min rc ?m" by (simp only: L layout_fields)
  show "charsPerRow L = cpr" by (simp only: L layout_fields)
  show "cpr * rc \<le> int len \<longrightarrow> rowCount L = rc"
  proof
    assume "cpr * rc \<le> int len"
    then have "rc \<le> ?m" by (rule ceiling_rows(4) [OF c])
    then show "rowCount L = rc" by (simp add: rows)
  qed
  show "int len \<le> cpr * rc \<longrightarrow> int len \<le> rowCount L * cpr \<and> (rowCount L - 1) * cpr < int len"
  proof
    assume "int len \<le> cpr * rc"
    then have "?m \<le> rc" by (rule ceiling_rows(5) [OF c])
    then have "rowCount L = ?m" by (simp add: rows)
    with ceiling_rows(1,2) [OF c, of len]
    show "int len \<le> rowCount L * cpr \<and> (rowCount L - 1) * cpr < int len" by simp
  qed
qed

lemma ceiling_as_div:
  "\<lceil>(of_nat n :: rat) / of_int c\<rceil> = - ((- int n) div c)"
  using ceiling_divide_eq_div [of "int n" c, where ?'a = rat] by simp

lemma pageCount_as_div: "pageCount n p = nat (- ((- int n) div int p))"
  using ceiling_as_div [of n "int p"] by (simp add: pageCount_def)

lemma exampleText_pages:
  "pageCount (length (splitCharacters exampleText)) 4 = 2"
  "length (pageChars (splitCharacters exampleText) 4 0) = 4"
  "length (pageChars (splitCharacters exampleText) 4 (Suc 0)) = 1"
  by (simp_all add: exampleText_stream pageCount_as_div length_pageChars)

lemma exampleText_one_page:
  "pageCount (length (splitCharacters exampleText)) 5 = Suc 0"
  "length (pageChars (splitCharacters exampleText) 5 0) = 5"
  by (simp_all add: exampleText_stream pageCount_as_div length_pageChars)

lemma splitCharacters_replicate:
  "\<not> isWhiteSpace c \<Longrightarrow> splitCharacters (replicate n c) = replicate n [c]"
  by (simp add: splitCharacters_eq stripWhitespace_def)

lemma exampleLine_stream: "length (splitCharacters exampleLine) = 31"
proof -
  have w: "\<not> isWhiteSpace (0x4F60 :: code_unit)" by (simp add: isWhiteSpace_def)
  show ?thesis
    unfolding exampleLine_def by (simp only: splitCharacters_replicate [OF w] length_replicate)
qed

lemma exampleLine_pages:
  "pageCount (length (splitCharacters exampleLine)) 31 = Suc 0"
  "length (pageChars (splitCharacters exampleLine) 31 0) = 31"
  by (simp_all add: exampleLine_stream pageCount_as_div length_pageChars)

subsection \<open>Characters drawn on the pages\<close>

lemma sum_list_split_drawn:
  "(\<And>x. x \<in> set xs \<Longrightarrow> f x \<le> g x) \<Longrightarrow>
   sum_list (map f xs) + sum_list (map (\<lambda>x. g x - f x) xs) = sum_list (map g xs)"
  for f g :: "'a \<Rightarrow> nat"
proof (induction xs)
  case Nil
  show ?case by simp
next
  case (Cons a xs)
  have fa: "f a \<le> g a" by (rule Cons.prems) simp
  have IH: "sum_list (map f xs) + sum_list (map (\<lambda>x. g x - f x) xs) = sum_list (map g xs)"
    by (rule Cons.IH) (simp add: Cons.prems)
  show ?case using fa IH by (simp only: list.map sum_list.Cons)
qed

lemma page_drawn_le:
  "charactersDrawn (pageResult loadedFonts fontType cpr rc practice opacity (splitCharacters s) p i)
     \<le> totalCharacters (pageResult loadedFonts fontType cpr rc practice opacity
           (splitCharacters s) p i)"
  by (simp only: pageResult_fields min.cobounded1)

lemma page_drawn_all:
  fixes loadedFonts :: "jsstring \<rightharpoonup> jsstring" and fontType :: jsval
    and practice :: bool and opacity :: rat and s :: jsstring
  assumes "1 \<le> cpr" and "cpr \<le> 20" and "1 \<le> rc" and "rc \<le> 30"
    and "0 < p" and "i < pageCount (length (splitCharacters s)) p"
    and "int p \<le> cpr * rc"
  shows "charactersDrawn (pageResult loadedFonts fontType cpr rc practice opacity
           (splitCharacters s) p i)
         = totalCharacters (pageResult loadedFonts fontType cpr rc practice opacity
           (splitCharacters s) p i)"
proof -
  let ?len = "length (pageChars (splitCharacters s) p i)"
  let ?m = "\<lceil>(of_nat ?len :: rat) / of_int cpr\<rceil>"
  have len: "0 < ?len" by (rule page_nonempty [OF assms(5,6)])
  have "?len \<le> p" by (simp add: length_pageChars)
  with assms(7) have fits: "int ?len \<le> cpr * rc" by simp
  note rows = page_rows [OF assms(1-6), of loadedFonts fontType practice opacity]
  from rows(4) fits have "int ?len \<le> min rc ?m * cpr"
    by (simp only: rows(1) [symmetric])
  then have "?len \<le> nat (min rc ?m * cpr)" by simp
  then show ?thesis
    by (simp only: pageResult_fields page_counts_in_range [OF assms(1-4) len] min.absorb1)
qed

lemma total_of_pages:
  assumes "0 < p"
  shows "sum_list (map (\<lambda>i. length (pageChars xs p i)) [0 ..< pageCount (length xs) p])
      = length xs"
proof -
  have "length (concat (map (pageChars xs p) [0 ..< pageCount (length xs) p]))
      = sum_list (map (\<lambda>i. length (pageChars xs p i)) [0 ..< pageCount (length xs) p])"
    by (simp add: length_concat comp_def)
  then show ?thesis by (simp only: concat_pages [OF assms])
qed

lemma copybook_conservation:
  "\<exists>res. generateCopybook loadedFonts (JStr s) fontType cprArg rcArg copts = Inr res
      \<and> charsPerRow (layout res) = max 1 (min 20 (parseIntOr (withDefault 15 cprArg) 15))
      \<and> rowCount (layout res) = max 1 (min 30 (parseIntOr (withDefault 5 rcArg) 5))
      \<and> totalCharacters res = length (stripWhitespace s)
      \<and> charactersDrawn res + length (drop (charactersDrawn res) (splitCharacters s))
          = totalCharacters res
      \<and> (int (totalCharacters res) \<le> charsPerRow (layout res) * rowCount (layout res)
           \<longrightarrow> charactersDrawn res = totalCharacters res)"
proof -
  from generateCopybook_fields [of loadedFonts s fontType cprArg rcArg copts]
  obtain res where res: "generateCopybook loadedFonts (JStr s) fontType cprArg rcArg copts = Inr res"
    and l: "layout res = calculateA4Layout (max 1 (min 20 (parseIntOr (withDefault 15 cprArg) 15)))
          (max 1 (min 30 (parseIntOr (withDefault 5 rcArg) 5)))"
    and t: "totalCharacters res = length (splitCharacters s)"
    and d: "charactersDrawn res = min (length (splitCharacters s))
          (nat (max 1 (min 30 (parseIntOr (withDefault 5 rcArg) 5))
               * max 1 (min 20 (parseIntOr (withDefault 15 cprArg) 15))))"
    by blast
  let ?c = "max 1 (min 20 (parseIntOr (withDefault 15 cprArg) 15))"
  let ?r = "max 1 (min 30 (parseIntOr (withDefault 5 rcArg) 5))"
  have c: "charsPerRow (layout res) = ?c" and r: "rowCount (layout res) = ?r"
    by (simp_all only: l layout_fields)
  have t': "totalCharacters res = length (stripWhitespace s)"
    by (simp only: t length_splitCharacters)
  have le: "charactersDrawn res \<le> length (splitCharacters s)" by (simp only: d min.cobounded1)
  then have cons: "charactersDrawn res + length (drop (charactersDrawn res) (splitCharacters s))
      = totalCharacters res"
    by (simp add: t)
  have cap: "charactersDrawn res = totalCharacters res"
    if "int (totalCharacters res) \<le> charsPerRow (layout res) * rowCount (layout res)"
  proof -
    from that have "int (length (splitCharacters s)) \<le> ?r * ?c"
      by (simp only: c r t mult.commute)
    then have "length (splitCharacters s) \<le> nat (?r * ?c)" by simp
    then show ?thesis by (simp only: d t min.absorb1)
  qed
  from res c r t' cons cap show ?thesis by blast
qed

lemma multipage_conservation:
  assumes "0 < pageBreakAfterOf options"
  shows "\<exists>doc. generateMultiPagePDF loadedFonts (JStr s) options = Inr doc
      \<and> doc_totalCharacters doc = length (stripWhitespace s)
      \<and> doc_charactersDrawn doc
          = sum_list (map (\<lambda>pg. charactersDrawn (page_canvas pg)) (pdf doc))
      \<and> doc_charactersDrawn doc
          + sum_list (map (\<lambda>pg. totalCharacters (page_canvas pg)
                                 - charactersDrawn (page_canvas pg)) (pdf doc))
          = doc_totalCharacters doc
      \<and> (1 \<le> charsPerRowOf options \<and> charsPerRowOf options \<le> 20
           \<and> 1 \<le> rowCountOf options \<and> rowCountOf options \<le> 30
           \<and> pageBreakAfterOf options \<le> charsPerRowOf options * rowCountOf options
           \<longrightarrow> doc_charactersDrawn doc = doc_totalCharacters doc)"
proof -
  define p where "p = nat (pageBreakAfterOf options)"
  from assms have p: "0 < p" and pb: "pageBreakAfterOf options = int p" by (simp_all add: p_def)
  let ?chars = "splitCharacters s"
  let ?T = "pageCount (length ?chars) p"
  let ?res = "pageResult loadedFonts (fontTypeOf options) (charsPerRowOf options)
                (rowCountOf options) (opt_practiceMode options) (guideOpacityOf options) ?chars p"
  let ?rec = "pageRecord loadedFonts (fontTypeOf options) (charsPerRowOf options)
                (rowCountOf options) (opt_practiceMode options) (guideOpacityOf options) ?chars p"
  define doc where "doc = \<lparr> pdf = map ?rec [0 ..< ?T],
           totalPages = Fin (int ?T),
           doc_charactersDrawn = sum_list (map (\<lambda>i. charactersDrawn (?res i)) [0 ..< ?T]),
           doc_totalCharacters = length ?chars \<rparr>"
  have gen: "generateMultiPagePDF loadedFonts (JStr s) options = Inr doc"
    unfolding doc_def p_def by (rule generateMultiPagePDF_string [OF assms])
  have total: "doc_totalCharacters doc = length (stripWhitespace s)"
    by (simp add: doc_def length_splitCharacters)
  have drawn: "doc_charactersDrawn doc = sum_list (map (\<lambda>i. charactersDrawn (?res i)) [0 ..< ?T])"
    by (simp add: doc_def)
  have drawn_pages: "sum_list (map (\<lambda>pg. charactersDrawn (page_canvas pg)) (pdf doc))
      = sum_list (map (\<lambda>i. charactersDrawn (?res i)) [0 ..< ?T])"
    by (simp add: doc_def comp_def page_fields)
  have lost_pages: "sum_list (map (\<lambda>pg. totalCharacters (page_canvas pg)
                                 - charactersDrawn (page_canvas pg)) (pdf doc))
      = sum_list (map (\<lambda>i. totalCharacters (?res i) - charactersDrawn (?res i)) [0 ..< ?T])"
    by (simp add: doc_def comp_def page_fields)
  have totals: "sum_list (map (\<lambda>i. totalCharacters (?res i)) [0 ..< ?T]) = length ?chars"
    by (simp only: pageResult_fields total_of_pages [OF p])
  have "sum_list (map (\<lambda>i. charactersDrawn (?res i)) [0 ..< ?T])
      + sum_list (map (\<lambda>i. totalCharacters (?res i) - charactersDrawn (?res i)) [0 ..< ?T])
      = sum_list (map (\<lambda>i. totalCharacters (?res i)) [0 ..< ?T])"
    by (rule sum_list_split_drawn) (rule page_drawn_le)
  then have cons: "doc_charactersDrawn doc
          + sum_list (map (\<lambda>pg. totalCharacters (page_canvas pg)
                                 - charactersDrawn (page_canvas pg)) (pdf doc))
          = doc_totalCharacters doc"
    by (simp only: drawn lost_pages totals) (simp add: doc_def)
  have cap: "doc_charactersDrawn doc = doc_totalCharacters doc"
    if "1 \<le> charsPerRowOf options \<and> charsPerRowOf options \<le> 20
           \<and> 1 \<le> rowCountOf options \<and> rowCountOf options \<le> 30
           \<and> pageBreakAfterOf options \<le> charsPerRowOf options * rowCountOf options"
  proof -
    from that have r: "1 \<le> charsPerRowOf options" "charsPerRowOf options \<le> 20"
      "1 \<le> rowCountOf options" "rowCountOf options \<le> 30"
      and fit: "int p \<le> charsPerRowOf options * rowCountOf options"
      by (simp_all add: pb)
    have "map (\<lambda>i. charactersDrawn (?res i)) [0 ..< ?T]
        = map (\<lambda>i. totalCharacters (?res i)) [0 ..< ?T]"
      by (rule map_cong [OF refl]) (simp add: page_drawn_all [OF r p _ fit])
    then show ?thesis by (simp only: drawn totals) (simp add: doc_def)
  qed
  from gen total drawn_pages [symmetric] drawn cons cap show ?thesis
    apply (intro exI [of _ doc] conjI impI)
        apply assumption
       apply assumption
      apply (simp only: drawn drawn_pages)
     apply assumption
    apply (erule cap)
    done
qed

lemma upt_two: "[0..<2::nat] = [0, Suc 0]"
  by (simp add: numeral_2_eq_2)

subsection \<open>The page image\<close>









































section \<open>The claims\<close>

subsection \<open>C1: the cell size of the layout\<close>

lemma div_times_le: "0 < (c::int) \<Longrightarrow> (w div c) * c \<le> w"
  using div_mult_mod_eq [of w c] pos_mod_sign [of c w] by linarith

lemma less_div_times:
  assumes "0 < (c::int)"
  shows "w < (w div c + 1) * c"
proof -
  have "w mod c < c" using assms by simp
  moreover have "(w div c) * c = w - w mod c" by (simp add: minus_mod_eq_div_mult)
  moreover have "(w div c + 1) * c = (w div c) * c + c" by (simp add: algebra_simps)
  ultimately show ?thesis by linarith
qed

text \<open>
  C1, as the code has it. For \<open>charsPerRow\<close> in 1..20 and \<open>rowCount\<close> in 1..30,
  \<open>calculateA4Layout\<close> returns the cell size
  \<open>min(floor(contentWidth / charsPerRow), floor(contentHeight / rowCount))\<close>, where the
  content width and height are the A4 pixel sizes less twice the padding. The grid of
  cells alone fits the content area (\<open>cellSize * charsPerRow \<le> contentWidth\<close>,
  \<open>cellSize * rowCount \<le> contentHeight\<close>), so grid plus padding fits the A4 page; a
  cell one pixel larger would overflow the content area on at least one axis; and
  \<open>totalWidth\<close>, \<open>totalHeight\<close> are the grid plus twice the padding.
\<close>

theorem calculateA4Layout_square_cells:
  assumes "1 \<le> cpr" and "cpr \<le> 20" and "1 \<le> rc" and "rc \<le> 30"
  shows "cellSize (calculateA4Layout cpr rc)
           = min \<lfloor>(of_int contentWidth :: rat) / of_int cpr\<rfloor>
                 \<lfloor>(of_int contentHeight :: rat) / of_int rc\<rfloor>
       \<and> contentWidth = A4_WIDTH_PX - 2 * padding
       \<and> contentHeight = A4_HEIGHT_PX - 2 * padding
       \<and> cellSize (calculateA4Layout cpr rc) * cpr \<le> contentWidth
       \<and> cellSize (calculateA4Layout cpr rc) * rc \<le> contentHeight
       \<and> cellSize (calculateA4Layout cpr rc) * cpr + 2 * padding \<le> A4_WIDTH_PX
       \<and> cellSize (calculateA4Layout cpr rc) * rc + 2 * padding \<le> A4_HEIGHT_PX
       \<and> (contentWidth < (cellSize (calculateA4Layout cpr rc) + 1) * cpr
          \<or> contentHeight < (cellSize (calculateA4Layout cpr rc) + 1) * rc)
       \<and> totalWidth (calculateA4Layout cpr rc)
           = cpr * cellSize (calculateA4Layout cpr rc) + 2 * padding
       \<and> totalHeight (calculateA4Layout cpr rc)
           = rc * cellSize (calculateA4Layout cpr rc) + 2 * padding"
proof -
  let ?cell = "cellSize (calculateA4Layout cpr rc)"
  from assms have pos: "0 < cpr" "0 < rc" by simp_all
  have cell: "?cell = min (contentWidth div cpr) (contentHeight div rc)"
    by (simp add: calculateA4Layout_def Let_def)
  have floors: "?cell = min \<lfloor>(of_int contentWidth :: rat) / of_int cpr\<rfloor>
                 \<lfloor>(of_int contentHeight :: rat) / of_int rc\<rfloor>"
    by (simp only: cell floor_divide_of_int_eq)
  have "?cell * cpr \<le> (contentWidth div cpr) * cpr"
    using pos by (simp add: cell)
  with div_times_le [OF pos(1), of contentWidth] have w: "?cell * cpr \<le> contentWidth"
    by linarith
  have "?cell * rc \<le> (contentHeight div rc) * rc"
    using pos by (simp add: cell)
  with div_times_le [OF pos(2), of contentHeight] have h: "?cell * rc \<le> contentHeight"
    by linarith
  have maximal: "contentWidth < (?cell + 1) * cpr \<or> contentHeight < (?cell + 1) * rc"
  proof (cases "contentWidth div cpr \<le> contentHeight div rc")
    case True
    then have "?cell = contentWidth div cpr" by (simp add: cell)
    with less_div_times [OF pos(1), of contentWidth] show ?thesis by simp
  next
    case False
    then have "?cell = contentHeight div rc" by (simp add: cell)
    with less_div_times [OF pos(2), of contentHeight] show ?thesis by simp
  qed
  have tw: "totalWidth (calculateA4Layout cpr rc) = cpr * ?cell + 2 * padding"
    and th: "totalHeight (calculateA4Layout cpr rc) = rc * ?cell + 2 * padding"
    by (simp_all add: calculateA4Layout_def Let_def)
  from w h have "?cell * cpr + 2 * padding \<le> A4_WIDTH_PX"
    "?cell * rc + 2 * padding \<le> A4_HEIGHT_PX"
    by (simp_all add: contentWidth_def contentHeight_def)
  with floors w h maximal tw th show ?thesis
    by (simp only: contentWidth_def contentHeight_def simp_thms)
qed

theorem calculateA4Layout_square_cells_witness:
  "cellSize (calculateA4Layout 10 15) = 228
   \<and> 228 * 10 \<le> contentWidth \<and> 228 * 15 \<le> contentHeight
   \<and> contentHeight < 229 * 15
   \<and> totalWidth (calculateA4Layout 10 15) = 2360
   \<and> totalHeight (calculateA4Layout 10 15) = 3500"
  using calculateA4Layout_square_cells [of 10 15]
  by (simp add: calculateA4Layout_def Let_def contentWidth_value contentHeight_value padding_def)

text \<open>
  C1 as the claim words it asks for \<open>cellSize * charsPerRow + 2 * padding \<le> contentWidth\<close>,
  counting the padding twice: the content width already excludes it. For one cell per
  row and one row the cell is 2400 wide, and 2400 + 80 exceeds the content width 2400.
\<close>

theorem calculateA4Layout_padding_bound_counterexample:
  "contentWidth < cellSize (calculateA4Layout 1 1) * 1 + 2 * padding"
  by (simp add: calculateA4Layout_def Let_def contentWidth_value contentHeight_value padding_def)



subsection \<open>C6: the character placer\<close>

text \<open>
  C6. For every text that is a string, \<open>generateCopybook\<close> returns a result (no
  error). The characters are placed row by row from cell (0,0): the draw calls are those
  of the stream's first \<open>charactersDrawn\<close> characters, the character of index \<open>i\<close> in
  column \<open>i mod charsPerRow\<close> of row \<open>i div charsPerRow\<close>. The loop stops when the
  grid or the stream is exhausted: \<open>charactersDrawn\<close> is the smaller of the stream
  length and \<open>charsPerRow * rowCount\<close> of the returned layout. A text that is empty
  after the white space is removed gives the grid alone and the count 0.
\<close>

theorem generateCopybook_placement:
  "\<exists>res. generateCopybook loadedFonts (JStr s) fontType cprArg rcArg options = Inr res
     \<and> totalCharacters res = length (stripWhitespace s)
     \<and> int (charactersDrawn res)
         = min (int (totalCharacters res)) (charsPerRow (layout res) * rowCount (layout res))
     \<and> glyphs (canvas res)
         = map (glyphAt (splitCharacters s) (charsPerRow (layout res)) (cellSize (layout res))
                  (fontFamily res) options)
             [0 ..< charactersDrawn res]
     \<and> cells (canvas res) = drawGrid (layout res)
     \<and> (stripWhitespace s = [] \<longrightarrow> charactersDrawn res = 0 \<and> glyphs (canvas res) = [])"
proof -
  define cpr where "cpr = max 1 (min 20 (parseIntOr (withDefault 15 cprArg) 15))"
  define rc where "rc = max 1 (min 30 (parseIntOr (withDefault 5 rcArg) 5))"
  have pos: "0 \<le> rc * cpr" by (simp add: cpr_def rc_def)
  have drawn: "int (min (length (splitCharacters s)) (nat (rc * cpr)))
      = min (int (length (splitCharacters s))) (cpr * rc)"
  proof -
    from pos obtain m where m: "rc * cpr = int m" using nonneg_int_cases by blast
    then have b: "cpr * rc = int m" by (simp add: mult.commute)
    from m have a: "nat (rc * cpr) = m" by simp
    show ?thesis unfolding a b by simp
  qed
  show ?thesis
    unfolding generateCopybook_string cpr_def [symmetric] rc_def [symmetric]
    by (simp add: layout_fields drawn [unfolded length_splitCharacters] length_splitCharacters)
qed

theorem generateCopybook_placement_witness:
  "\<exists>res. generateCopybook Map.empty (JStr [0x20, 0x09, 0x3000]) JUndefined JUndefined JUndefined
            \<lparr>practiceMode = False, guideOpacity = None\<rparr> = Inr res
     \<and> totalCharacters res = 0 \<and> charactersDrawn res = 0 \<and> glyphs (canvas res) = []"
  using generateCopybook_placement [of Map.empty "[0x20, 0x09, 0x3000]" JUndefined JUndefined
      JUndefined "\<lparr>practiceMode = False, guideOpacity = None\<rparr>"]
  by (auto simp: stripWhitespace_def isWhiteSpace_def)

subsection \<open>C10: the layout does not depend on the text\<close>

text \<open>
  C10. For any two texts and the same font type, counts and options, both calls of
  \<open>generateCopybook\<close> return a result, and the two layout records (\<open>cellSize\<close>,
  \<open>totalWidth\<close>, \<open>totalHeight\<close>, \<open>charsPerRow\<close>, \<open>rowCount\<close>) are equal: the layout
  is \<open>calculateA4Layout\<close> of the two clamped counts.
\<close>

theorem generateCopybook_layout_independent_of_text:
  "\<exists>res1 res2.
     generateCopybook loadedFonts (JStr text1) fontType cprArg rcArg options = Inr res1
   \<and> generateCopybook loadedFonts (JStr text2) fontType cprArg rcArg options = Inr res2
   \<and> layout res1 = layout res2
   \<and> layout res1 = calculateA4Layout (max 1 (min 20 (parseIntOr (withDefault 15 cprArg) 15)))
                                      (max 1 (min 30 (parseIntOr (withDefault 5 rcArg) 5)))"
  unfolding generateCopybook_string by simp



subsection \<open>C4: clamping of the grid counts\<close>





subsection \<open>C5: text validation\<close>

text \<open>
  C5, as the code has it. \<open>validateText\<close> raises exactly when the input is not a string,
  or is empty once trimmed, or is longer than 2000 code units once trimmed: the cap is
  measured on the text with the white space removed at its two ends only. On a raise
  there is no output; otherwise the trimmed text is returned.
\<close>

theorem validateText_errors:
  "(isl (validateText v) \<longleftrightarrow>
      (\<forall>s. v \<noteq> JStr s) \<or> (\<exists>s. v = JStr s \<and> (trim s = [] \<or> 2000 < length (trim s))))
   \<and> (\<forall>s. v = JStr s \<longrightarrow> trim s \<noteq> [] \<longrightarrow> length (trim s) \<le> 2000
          \<longrightarrow> validateText v = Inr (trim s))"
proof -
  have empty: "trim [] = []" by (simp add: trim_def)
  show ?thesis
    by (cases v) (auto simp: validateText_def Let_def empty)
qed

lemma trim_example: "trim [0x20, 0x4F60, 0x597D, 0x0A] = [0x4F60, 0x597D]"
  by (simp add: trim_def isWhiteSpace_def)

theorem validateText_errors_witness:
  "\<not> isl (validateText (JStr [0x20, 0x4F60, 0x597D, 0x0A]))
   \<and> validateText (JStr [0x20, 0x4F60, 0x597D, 0x0A]) = Inr [0x4F60, 0x597D]"
proof -
  note th = validateText_errors [of "JStr [0x20, 0x4F60, 0x597D, 0x0A]"]
  have ok: "trim [0x20, 0x4F60, 0x597D, 0x0A] \<noteq> []"
    "length (trim [0x20, 0x4F60, 0x597D, 0x0A]) \<le> 2000"
    by (simp_all only: trim_example) simp_all
  from th have "validateText (JStr [0x20, 0x4F60, 0x597D, 0x0A])
      = Inr (trim [0x20, 0x4F60, 0x597D, 0x0A])"
    using ok by blast
  then show ?thesis by (simp only: trim_example sum.disc simp_thms)
qed

text \<open>
  C5 as the claim words it measures the cap on the text with all white space removed.
  The letter a, 2000 spaces and the letter a: two characters once the white space is
  removed, 2002 code units once trimmed, and \<open>validateText\<close> raises.
\<close>

lemma validateText_inner_spaces:
  assumes "2000 < n + 2"
  shows "validateText (JStr (0x61 # replicate n 0x20 @ [0x61])) = Inl TextTooLong"
    and "length (stripWhitespace (0x61 # replicate n 0x20 @ [0x61])) = 2"
proof -
  have a: "\<not> isWhiteSpace 0x61" and sp: "isWhiteSpace 0x20"
    by (simp_all add: isWhiteSpace_def)
  have "trim (0x61 # replicate n 0x20 @ [0x61]) = 0x61 # replicate n 0x20 @ [0x61]"
    by (simp add: trim_def a)
  then show "validateText (JStr (0x61 # replicate n 0x20 @ [0x61])) = Inl TextTooLong"
    using assms by (simp add: validateText_def Let_def)
  show "length (stripWhitespace (0x61 # replicate n 0x20 @ [0x61])) = 2"
    by (simp add: stripWhitespace_def a sp)
qed

theorem validateText_cap_counterexample:
  "validateText (JStr (0x61 # replicate 2000 0x20 @ [0x61])) = Inl TextTooLong
   \<and> length (stripWhitespace (0x61 # replicate 2000 0x20 @ [0x61])) = 2"
proof -
  have n: "2000 < (2000::nat) + 2" by simp
  from validateText_inner_spaces [OF n] show ?thesis by (intro conjI)
qed



subsection \<open>C9: the guide opacity\<close>

text \<open>
  C9, as the code has it. In practice mode \<open>generateCopybook\<close>,
  \<open>generatePracticeCopybook\<close> and the page canvases of \<open>generateMultiPagePDF\<close> assign
  \<open>guideOpacity || 0.3\<close> to \<open>ctx.globalAlpha\<close> for every character, and the canvas
  ignores a value outside 0..1. So the opacity in force for a supplied \<open>guideOpacity\<close>
  \<open>q\<close> is \<open>q\<close> clamped into 0.1..1.0 when \<open>q\<close> is at least 0.1; below 0.1 nothing
  raises it to 0.1: a positive \<open>q\<close> is used as it is, 0 gives the default 0.3, and a
  negative \<open>q\<close> leaves the opacity at 1. The opacity in force is always above 0 and at
  most 1. \<open>validateOptions\<close> returns \<open>guideOpacity\<close> clamped into 0.1..1.0, with 0.2
  for a value that is absent or 0. No opacity makes any of them raise an error: a string
  text always gives a result.
\<close>

theorem guideOpacity_used:
  "(\<exists>res. generateCopybook loadedFonts (JStr s) fontType cprArg rcArg
              \<lparr>practiceMode = True, guideOpacity = g\<rparr> = Inr res
       \<and> map glyph_alpha (glyphs (canvas res))
           = replicate (charactersDrawn res) (setGlobalAlpha 1 (numberOr g (3 / 10))))
   \<and> (\<exists>res. generatePracticeCopybook loadedFonts (JStr s) fontType cprArg rcArg g = Inr res
       \<and> map glyph_alpha (glyphs (canvas res))
           = replicate (charactersDrawn res) (setGlobalAlpha 1 (numberOr g (3 / 10))))
   \<and> (\<exists>res. pageCanvas loadedFonts fontType cpr rc True opacity pageText = Inr res
       \<and> map glyph_alpha (glyphs (canvas res))
           = replicate (charactersDrawn res)
               (setGlobalAlpha 1 (numberOr (Some opacity) (3 / 10))))
   \<and> setGlobalAlpha 1 (numberOr None (3 / 10)) = 3 / 10
   \<and> setGlobalAlpha 1 (numberOr (Some q) (3 / 10))
       = (if 1 / 10 \<le> q then max (1 / 10) (min 1 q)
          else if 0 < q then q
          else if q = 0 then 3 / 10
          else 1)
   \<and> 0 < setGlobalAlpha 1 (numberOr g (3 / 10))
   \<and> setGlobalAlpha 1 (numberOr g (3 / 10)) \<le> 1
   \<and> opt_guideOpacity (validateOptions raw)
       = Some (max (1 / 10) (min 1 (numberOr (raw_guideOpacity raw) (2 / 10))))
   \<and> (\<exists>q'. opt_guideOpacity (validateOptions raw) = Some q' \<and> 1 / 10 \<le> q' \<and> q' \<le> 1)"
proof -
  have practice: "numberOr (case g of None \<Rightarrow> Some (3 / 10) | Some q \<Rightarrow> Some q) (3 / 10)
      = numberOr g (3 / 10)"
    by (simp add: numberOr_def split: option.splits)
  have "\<exists>res. generateCopybook loadedFonts (JStr s) fontType cprArg rcArg
              \<lparr>practiceMode = True, guideOpacity = g\<rparr> = Inr res
       \<and> map glyph_alpha (glyphs (canvas res))
           = replicate (charactersDrawn res) (setGlobalAlpha 1 (numberOr g (3 / 10)))"
    using alphas_generateCopybook [of loadedFonts s fontType cprArg rcArg
        "\<lparr>practiceMode = True, guideOpacity = g\<rparr>"] by simp
  moreover have "\<exists>res. generatePracticeCopybook loadedFonts (JStr s) fontType cprArg rcArg g = Inr res
       \<and> map glyph_alpha (glyphs (canvas res))
           = replicate (charactersDrawn res) (setGlobalAlpha 1 (numberOr g (3 / 10)))"
    using alphas_generateCopybook [of loadedFonts s fontType cprArg rcArg
        "\<lparr>practiceMode = True,
          guideOpacity = (case g of None \<Rightarrow> Some (3 / 10) | Some q \<Rightarrow> Some q)\<rparr>"]
    by (simp add: generatePracticeCopybook_def practice)
  moreover have "\<exists>res. pageCanvas loadedFonts fontType cpr rc True opacity pageText = Inr res
       \<and> map glyph_alpha (glyphs (canvas res))
           = replicate (charactersDrawn res)
               (setGlobalAlpha 1 (numberOr (Some opacity) (3 / 10)))"
    using alphas_generateCopybook [of loadedFonts pageText fontType "JNum (Fin cpr)"
        "JNum (actualRowCount rc cpr (length pageText))"
        "\<lparr>practiceMode = True, guideOpacity = Some opacity\<rparr>"]
    by (simp add: pageCanvas_def generatePracticeCopybook_def)
  moreover have "setGlobalAlpha 1 (numberOr None (3 / 10)) = 3 / 10"
    by (simp add: numberOr_def setGlobalAlpha_def)
  moreover have "setGlobalAlpha 1 (numberOr (Some q) (3 / 10))
       = (if 1 / 10 \<le> q then max (1 / 10) (min 1 q)
          else if 0 < q then q
          else if q = 0 then 3 / 10
          else 1)"
    by (simp add: numberOr_def setGlobalAlpha_def)
  moreover have "0 < setGlobalAlpha 1 (numberOr g (3 / 10))"
    by (cases g) (auto simp add: numberOr_def setGlobalAlpha_def)
  moreover have "setGlobalAlpha 1 (numberOr g (3 / 10)) \<le> 1"
    by (cases g) (auto simp add: numberOr_def setGlobalAlpha_def)
  moreover have "opt_guideOpacity (validateOptions raw)
       = Some (max (1 / 10) (min 1 (numberOr (raw_guideOpacity raw) (2 / 10))))"
    by (simp add: validateOptions_def)
  moreover have "\<exists>q'. opt_guideOpacity (validateOptions raw) = Some q' \<and> 1 / 10 \<le> q' \<and> q' \<le> 1"
    by (simp add: validateOptions_def)
  ultimately show ?thesis by (intro conjI)
qed

text \<open>
  C9 as the claim words it has the opacity used for drawing clamped into 0.1..1.0.
  With \<open>practiceMode\<close> on and \<open>guideOpacity = 0.05\<close> the two characters are drawn with
  \<open>globalAlpha = 0.05\<close>, below 0.1.
\<close>

theorem guideOpacity_unclamped_counterexample:
  "alphasUsed (generateCopybook Map.empty (JStr [0x4F60, 0x597D]) JUndefined JUndefined JUndefined
       \<lparr>practiceMode = True, guideOpacity = Some (1 / 20)\<rparr>) = [1 / 20, 1 / 20]
   \<and> (1 / 20 :: rat) < 1 / 10"
  unfolding generateCopybook_string
  by (simp add: alphasUsed_def glyph_alpha_glyphAt numberOr_def setGlobalAlpha_def comp_def
        splitCharacters_eq stripWhitespace_def isWhiteSpace_def layout_fields
        parseIntOr_def withDefault_def upt_rec)

subsection \<open>C2: pagination\<close>

text \<open>
  C2. For a text that is a string and a positive \<open>pageBreakAfter\<close>,
  \<open>generateMultiPagePDF\<close> returns a document; its \<open>totalPages\<close> and the number of
  pages it holds are \<open>ceil(n / pageBreakAfter)\<close> for the \<open>n\<close> characters of the
  stream; page \<open>i\<close> (numbered \<open>i + 1\<close>) is drawn from exactly the characters of
  indices \<open>i * pageBreakAfter\<close> up to \<open>min((i + 1) * pageBreakAfter, n)\<close>; and the
  pages' slices, in page order, give back the stream.
\<close>

theorem multipage_pagination:
  assumes "0 < pageBreakAfterOf options"
  shows "\<exists>doc. generateMultiPagePDF loadedFonts (JStr s) options = Inr doc
     \<and> totalPages doc = Fin \<lceil>(of_nat (length (splitCharacters s)) :: rat)
                               / of_int (pageBreakAfterOf options)\<rceil>
     \<and> int (length (pdf doc)) = \<lceil>(of_nat (length (splitCharacters s)) :: rat)
                               / of_int (pageBreakAfterOf options)\<rceil>
     \<and> (\<forall>i < length (pdf doc).
            page_text (pdf doc ! i)
              = concat (pageChars (splitCharacters s) (nat (pageBreakAfterOf options)) i)
          \<and> splitCharacters (page_text (pdf doc ! i))
              = pageChars (splitCharacters s) (nat (pageBreakAfterOf options)) i
          \<and> page_number (pdf doc ! i) = i + 1)
     \<and> concat (map page_text (pdf doc)) = stripWhitespace s
     \<and> concat (map (\<lambda>pg. splitCharacters (page_text pg)) (pdf doc)) = splitCharacters s"
proof -
  define p where "p = nat (pageBreakAfterOf options)"
  from assms have p: "0 < p" and pb: "pageBreakAfterOf options = int p"
    by (simp_all add: p_def)
  let ?chars = "splitCharacters s"
  let ?T = "pageCount (length ?chars) p"
  let ?rec = "pageRecord loadedFonts (fontTypeOf options) (charsPerRowOf options)
                (rowCountOf options) (opt_practiceMode options) (guideOpacityOf options) ?chars p"
  have texts: "map page_text (map ?rec [0 ..< ?T])
      = map (\<lambda>i. concat (pageChars ?chars p i)) [0 ..< ?T]"
    by (simp add: page_fields)
  have streams: "map (\<lambda>pg. splitCharacters (page_text pg)) (map ?rec [0 ..< ?T])
      = map (pageChars ?chars p) [0 ..< ?T]"
    by (simp add: page_fields splitCharacters_page)
  show ?thesis
    unfolding generateMultiPagePDF_string [OF assms] p_def [symmetric] pb
    apply (rule exI, rule conjI, rule refl)
    apply (simp only: multipage_pdf.simps texts streams concat_page_texts [OF p]
        concat_pages [OF p] pageCount_ceiling [symmetric] length_map length_upt diff_zero)
    apply (simp add: page_fields splitCharacters_page comp_def
        concat_page_texts [OF p] concat_pages [OF p])
    done
qed

theorem multipage_pagination_witness:
  "\<exists>doc. generateMultiPagePDF Map.empty (JStr exampleText) (exampleOptions 10 15 2) = Inr doc
     \<and> totalPages doc = Fin 3 \<and> length (pdf doc) = 3
     \<and> page_text (pdf doc ! 2) = [0x5B57]
     \<and> concat (map page_text (pdf doc)) = [0x4F60, 0x597D, 0x4E16, 0x754C, 0x5B57]"
proof -
  have pb: "0 < pageBreakAfterOf (exampleOptions 10 15 2)"
    by (simp add: exampleOptions_fields)
  have ceil: "\<lceil>(of_nat (length (splitCharacters exampleText)) :: rat)
                 / of_int (pageBreakAfterOf (exampleOptions 10 15 2))\<rceil> = 3"
    by (simp add: exampleText_stream exampleOptions_fields ceiling_eq_iff)
  have last: "concat (pageChars (splitCharacters exampleText)
                (nat (pageBreakAfterOf (exampleOptions 10 15 2))) 2) = [0x5B57]"
    by (simp add: exampleText_stream exampleOptions_fields pageChars_eq)
  from multipage_pagination [OF pb, of Map.empty exampleText]
  obtain doc where doc: "generateMultiPagePDF Map.empty (JStr exampleText) (exampleOptions 10 15 2) = Inr doc"
    and tp: "totalPages doc = Fin \<lceil>(of_nat (length (splitCharacters exampleText)) :: rat)
                               / of_int (pageBreakAfterOf (exampleOptions 10 15 2))\<rceil>"
    and len: "int (length (pdf doc)) = \<lceil>(of_nat (length (splitCharacters exampleText)) :: rat)
                               / of_int (pageBreakAfterOf (exampleOptions 10 15 2))\<rceil>"
    and pages: "\<forall>i < length (pdf doc).
            page_text (pdf doc ! i)
              = concat (pageChars (splitCharacters exampleText)
                  (nat (pageBreakAfterOf (exampleOptions 10 15 2))) i)
          \<and> splitCharacters (page_text (pdf doc ! i))
              = pageChars (splitCharacters exampleText)
                  (nat (pageBreakAfterOf (exampleOptions 10 15 2))) i
          \<and> page_number (pdf doc ! i) = i + 1"
    and cat: "concat (map page_text (pdf doc)) = stripWhitespace exampleText"
    by blast
  from len have len3: "length (pdf doc) = 3" by (simp only: ceil)
  then have "(2::nat) < length (pdf doc)" by simp
  with pages have "page_text (pdf doc ! 2) = concat (pageChars (splitCharacters exampleText)
                  (nat (pageBreakAfterOf (exampleOptions 10 15 2))) 2)"
    by blast
  then have p2: "page_text (pdf doc ! 2) = [0x5B57]" by (simp only: last)
  from tp have tp3: "totalPages doc = Fin 3" by (simp only: ceil)
  from cat have cat5: "concat (map page_text (pdf doc)) = [0x4F60, 0x597D, 0x4E16, 0x754C, 0x5B57]"
    by (simp only: exampleText_stream)
  from doc tp3 len3 p2 cat5 show ?thesis by blast
qed

subsection \<open>C7: the row count of a page\<close>

text \<open>
  C7, as the code has it. With \<open>charsPerRow\<close> in 1..20 and \<open>rowCount\<close> in 1..30, every
  page of the document has a non-empty slice, and the grid drawn for it has
  \<open>min(rowCount, ceil(sliceLength / charsPerRow))\<close> rows of \<open>charsPerRow\<close> cells. A page
  whose slice fills the requested grid has the full \<open>rowCount\<close> rows; a page whose
  slice fits the requested grid has exactly enough rows for it: its rows hold the
  slice, and one row less would not. The pages are those of C2 for a positive
  \<open>pageBreakAfter\<close>; there is none otherwise.
\<close>

theorem multipage_actual_row_count:
  assumes "1 \<le> charsPerRowOf options" and "charsPerRowOf options \<le> 20"
    and "1 \<le> rowCountOf options" and "rowCountOf options \<le> 30"
  shows "\<exists>doc. generateMultiPagePDF loadedFonts (JStr s) options = Inr doc
     \<and> length (pdf doc)
         = (if 0 < pageBreakAfterOf options
            then pageCount (length (splitCharacters s)) (nat (pageBreakAfterOf options))
            else 0)
     \<and> (\<forall>i < length (pdf doc).
            0 < length (page_text (pdf doc ! i))
          \<and> length (page_text (pdf doc ! i))
              = length (pageChars (splitCharacters s) (nat (pageBreakAfterOf options)) i)
          \<and> rowCount (layout (page_canvas (pdf doc ! i)))
              = min (rowCountOf options)
                  \<lceil>(of_nat (length (page_text (pdf doc ! i))) :: rat)
                     / of_int (charsPerRowOf options)\<rceil>
          \<and> charsPerRow (layout (page_canvas (pdf doc ! i))) = charsPerRowOf options
          \<and> (charsPerRowOf options * rowCountOf options \<le> int (length (page_text (pdf doc ! i)))
               \<longrightarrow> rowCount (layout (page_canvas (pdf doc ! i))) = rowCountOf options)
          \<and> (int (length (page_text (pdf doc ! i))) \<le> charsPerRowOf options * rowCountOf options
               \<longrightarrow> int (length (page_text (pdf doc ! i)))
                     \<le> rowCount (layout (page_canvas (pdf doc ! i))) * charsPerRowOf options
                   \<and> (rowCount (layout (page_canvas (pdf doc ! i))) - 1) * charsPerRowOf options
                     < int (length (page_text (pdf doc ! i)))))"
proof (cases "0 < pageBreakAfterOf options")
  case False
  then have np: "pageBreakAfterOf options \<le> 0" by simp
  show ?thesis
    unfolding generateMultiPagePDF_nonpositive [OF np] using False by simp
next
  case pos: True
  define p where "p = nat (pageBreakAfterOf options)"
  from pos have p: "0 < p" by (simp add: p_def)
  let ?chars = "splitCharacters s"
  let ?T = "pageCount (length ?chars) p"
  let ?rec = "pageRecord loadedFonts (fontTypeOf options) (charsPerRowOf options)
                (rowCountOf options) (opt_practiceMode options) (guideOpacityOf options) ?chars p"
  have page: "0 < length (page_text (?rec i))
          \<and> length (page_text (?rec i)) = length (pageChars ?chars p i)
          \<and> rowCount (layout (page_canvas (?rec i)))
              = min (rowCountOf options)
                  \<lceil>(of_nat (length (page_text (?rec i))) :: rat)
                     / of_int (charsPerRowOf options)\<rceil>
          \<and> charsPerRow (layout (page_canvas (?rec i))) = charsPerRowOf options
          \<and> (charsPerRowOf options * rowCountOf options \<le> int (length (page_text (?rec i)))
               \<longrightarrow> rowCount (layout (page_canvas (?rec i))) = rowCountOf options)
          \<and> (int (length (page_text (?rec i))) \<le> charsPerRowOf options * rowCountOf options
               \<longrightarrow> int (length (page_text (?rec i)))
                     \<le> rowCount (layout (page_canvas (?rec i))) * charsPerRowOf options
                   \<and> (rowCount (layout (page_canvas (?rec i))) - 1) * charsPerRowOf options
                     < int (length (page_text (?rec i))))"
    if i: "i < ?T" for i
    unfolding page_fields length_concat_page
    using page_nonempty [OF p i]
      page_rows [OF assms(1-4) p i, of loadedFonts "fontTypeOf options"
        "opt_practiceMode options" "guideOpacityOf options"]
    apply (intro conjI)
         apply (assumption | rule refl)+
    done
  define doc where "doc = \<lparr> pdf = map ?rec [0 ..< ?T],
           totalPages = Fin (int ?T),
           doc_charactersDrawn =
             sum_list (map (\<lambda>i. charactersDrawn
                  (pageResult loadedFonts (fontTypeOf options) (charsPerRowOf options)
                       (rowCountOf options) (opt_practiceMode options) (guideOpacityOf options)
                       ?chars p i))
                [0 ..< ?T]),
           doc_totalCharacters = length ?chars \<rparr>"
  have gen: "generateMultiPagePDF loadedFonts (JStr s) options = Inr doc"
    unfolding doc_def p_def by (rule generateMultiPagePDF_string [OF pos])
  have len: "length (pdf doc) = ?T" by (simp add: doc_def)
  have nth: "pdf doc ! i = ?rec i" if "i < ?T" for i
    using that by (simp add: doc_def)
  show ?thesis
    unfolding p_def [symmetric]
    apply (rule exI [of _ doc])
    apply (intro conjI)
      apply (rule gen)
     apply (simp only: len pos if_True)
    apply (intro allI impI)
    apply (simp only: len)
    apply (simp only: nth)
    apply (rule page)
    apply assumption
    done
qed

theorem multipage_actual_row_count_witness:
  "\<exists>doc. generateMultiPagePDF Map.empty (JStr exampleText) (exampleOptions 2 2 4) = Inr doc
     \<and> length (pdf doc) = 2
     \<and> rowCount (layout (page_canvas (pdf doc ! 0))) = 2
     \<and> rowCount (layout (page_canvas (pdf doc ! 1))) = 1"
proof -
  let ?o = "exampleOptions 2 2 4"
  have hyps: "1 \<le> charsPerRowOf ?o" "charsPerRowOf ?o \<le> 20"
    "1 \<le> rowCountOf ?o" "rowCountOf ?o \<le> 30"
    by (simp_all add: exampleOptions_fields)
  from multipage_actual_row_count [OF hyps, of Map.empty exampleText]
  obtain doc where doc: "generateMultiPagePDF Map.empty (JStr exampleText) ?o = Inr doc"
    and len: "length (pdf doc)
         = (if 0 < pageBreakAfterOf ?o
            then pageCount (length (splitCharacters exampleText)) (nat (pageBreakAfterOf ?o))
            else 0)"
    and pages: "\<And>i. i < length (pdf doc) \<Longrightarrow>
            length (page_text (pdf doc ! i))
              = length (pageChars (splitCharacters exampleText) (nat (pageBreakAfterOf ?o)) i)
          \<and> rowCount (layout (page_canvas (pdf doc ! i)))
              = min (rowCountOf ?o)
                  \<lceil>(of_nat (length (page_text (pdf doc ! i))) :: rat)
                     / of_int (charsPerRowOf ?o)\<rceil>"
    by blast
  have pb: "nat (pageBreakAfterOf ?o) = 4" "0 < pageBreakAfterOf ?o"
    by (simp_all add: exampleOptions_fields)
  from len have len2: "length (pdf doc) = 2" by (simp only: pb if_True exampleText_pages)
  have "0 < length (pdf doc)" by (simp add: len2)
  from pages [OF this]
  have "rowCount (layout (page_canvas (pdf doc ! 0)))
      = min (rowCountOf ?o) \<lceil>(of_nat (length (pageChars (splitCharacters exampleText)
              (nat (pageBreakAfterOf ?o)) 0)) :: rat) / of_int (charsPerRowOf ?o)\<rceil>"
    by simp
  then have r0: "rowCount (layout (page_canvas (pdf doc ! 0))) = 2"
    by (simp add: pb exampleText_pages exampleOptions_fields ceiling_as_div)
  have "Suc 0 < length (pdf doc)" by (simp add: len2)
  from pages [OF this]
  have "rowCount (layout (page_canvas (pdf doc ! Suc 0)))
      = min (rowCountOf ?o) \<lceil>(of_nat (length (pageChars (splitCharacters exampleText)
              (nat (pageBreakAfterOf ?o)) (Suc 0))) :: rat) / of_int (charsPerRowOf ?o)\<rceil>"
    by simp
  then have "rowCount (layout (page_canvas (pdf doc ! Suc 0))) = 1"
    by (simp add: pb exampleText_pages exampleOptions_fields ceiling_eq_iff)
  then have r1: "rowCount (layout (page_canvas (pdf doc ! 1))) = 1" by simp
  from doc len2 r0 r1 show ?thesis by blast
qed

text \<open>
  C7 as the claim words it holds for every requested row count. \<open>generateCopybook\<close>
  clamps the row count it is given into 1..30 again: with 31 characters, one cell per
  row, 31 rows requested and 31 characters per page, \<open>actualRowCount\<close> is 31, the grid of
  the page has 30 rows, and 30 of the 31 characters are drawn. And a last page has
  enough rows for its characters only when its slice fits the requested grid: five
  characters on one page of two cells per row and one row requested get one row, which
  holds two of them.
\<close>

theorem multipage_row_count_clamped_counterexample:
  "pageRows (generateMultiPagePDF Map.empty (JStr exampleLine) (exampleOptions 1 31 31)) = [30]
   \<and> actualRowCount 31 1 31 = Fin 31
   \<and> map_sum id doc_charactersDrawn
        (generateMultiPagePDF Map.empty (JStr exampleLine) (exampleOptions 1 31 31)) = Inr 30
   \<and> map_sum id doc_totalCharacters
        (generateMultiPagePDF Map.empty (JStr exampleLine) (exampleOptions 1 31 31)) = Inr 31
   \<and> pageRows (generateMultiPagePDF Map.empty (JStr exampleText) (exampleOptions 2 1 5)) = [1]
   \<and> map_sum id doc_totalCharacters
        (generateMultiPagePDF Map.empty (JStr exampleText) (exampleOptions 2 1 5)) = Inr 5
   \<and> (1::int) * 2 < 5"
proof -
  let ?o = "exampleOptions 1 31 31"
  have pb: "0 < pageBreakAfterOf ?o" by (simp add: exampleOptions_fields)
  have p31: "nat (pageBreakAfterOf ?o) = 31" by (simp add: exampleOptions_fields)
  have rows: "actualRowCount 31 1 31 = Fin 31"
    by (simp add: actualRowCount_def minNum_def ceilDiv_def)
  have l0: "rowCount (layout (pageResult Map.empty (fontTypeOf ?o) 1 31 (opt_practiceMode ?o)
      (guideOpacityOf ?o) (splitCharacters exampleLine) 31 0)) = 30"
    by (simp add: pageResult_fields exampleLine_pages rows parseIntOr_def layout_fields)
  have d0: "charactersDrawn (pageResult Map.empty (fontTypeOf ?o) 1 31 (opt_practiceMode ?o)
      (guideOpacityOf ?o) (splitCharacters exampleLine) 31 0) = 30"
    by (simp add: pageResult_fields exampleLine_pages rows parseIntOr_def)
  have first: "pageRows (generateMultiPagePDF Map.empty (JStr exampleLine) ?o) = [30]
   \<and> map_sum id doc_charactersDrawn (generateMultiPagePDF Map.empty (JStr exampleLine) ?o) = Inr 30
   \<and> map_sum id doc_totalCharacters (generateMultiPagePDF Map.empty (JStr exampleLine) ?o) = Inr 31"
    unfolding generateMultiPagePDF_string [OF pb] p31 exampleOptions_fields exampleLine_pages
    by (simp add: pageRows_def page_fields l0 d0 rows exampleLine_stream pageCount_as_div comp_def)
  let ?q = "exampleOptions 2 1 5"
  have qb: "0 < pageBreakAfterOf ?q" by (simp add: exampleOptions_fields)
  have q5: "nat (pageBreakAfterOf ?q) = 5" by (simp add: exampleOptions_fields)
  have rows5: "actualRowCount 1 2 5 = Fin 1"
    by (simp add: actualRowCount_def minNum_def ceilDiv_def ceiling_as_div)
  have l5: "rowCount (layout (pageResult Map.empty (fontTypeOf ?q) 2 1 (opt_practiceMode ?q)
      (guideOpacityOf ?q) (splitCharacters exampleText) 5 0)) = 1"
    by (simp add: pageResult_fields exampleText_one_page rows5 parseIntOr_def layout_fields)
  have len5: "length (splitCharacters exampleText) = 5" by (simp add: exampleText_stream)
  have second: "pageRows (generateMultiPagePDF Map.empty (JStr exampleText) ?q) = [1]
   \<and> map_sum id doc_totalCharacters (generateMultiPagePDF Map.empty (JStr exampleText) ?q) = Inr 5"
    unfolding generateMultiPagePDF_string [OF qb] q5 exampleOptions_fields exampleText_one_page
    by (simp add: pageRows_def page_fields l5 len5 pageCount_as_div comp_def)
  from first rows second show ?thesis by simp
qed

subsection \<open>C3: character conservation\<close>

text \<open>
  C3, as the code has it. For any text that is a string, \<open>generateCopybook\<close> reports
  \<open>totalCharacters\<close>, the length of the stream, and \<open>charactersDrawn\<close>; the characters
  drawn and the characters left undrawn add up to the stream, and when the grid of the
  returned layout has room for the stream the two counts are equal. For a positive
  \<open>pageBreakAfter\<close>, \<open>generateMultiPagePDF\<close> reports the sum of the pages'
  \<open>charactersDrawn\<close>; this sum and the characters left undrawn on the pages add up to
  \<open>totalCharacters\<close>; and the two counts are equal when every page's slice fits its own
  grid: \<open>charsPerRow\<close> in 1..20, \<open>rowCount\<close> in 1..30 and
  \<open>pageBreakAfter \<le> charsPerRow * rowCount\<close>. For a \<open>pageBreakAfter\<close> of 0 or less
  \<open>generateMultiPagePDF\<close> makes no page and reports \<open>charactersDrawn = 0\<close>.
\<close>

theorem character_conservation:
  "(\<exists>res. generateCopybook loadedFonts (JStr s) fontType cprArg rcArg copts = Inr res
      \<and> charsPerRow (layout res) = max 1 (min 20 (parseIntOr (withDefault 15 cprArg) 15))
      \<and> rowCount (layout res) = max 1 (min 30 (parseIntOr (withDefault 5 rcArg) 5))
      \<and> totalCharacters res = length (stripWhitespace s)
      \<and> charactersDrawn res + length (drop (charactersDrawn res) (splitCharacters s))
          = totalCharacters res
      \<and> (int (totalCharacters res) \<le> charsPerRow (layout res) * rowCount (layout res)
           \<longrightarrow> charactersDrawn res = totalCharacters res))
   \<and> (0 < pageBreakAfterOf options \<longrightarrow>
        (\<exists>doc. generateMultiPagePDF loadedFonts (JStr s) options = Inr doc
          \<and> doc_totalCharacters doc = length (stripWhitespace s)
          \<and> doc_charactersDrawn doc
              = sum_list (map (\<lambda>pg. charactersDrawn (page_canvas pg)) (pdf doc))
          \<and> doc_charactersDrawn doc
              + sum_list (map (\<lambda>pg. totalCharacters (page_canvas pg)
                                     - charactersDrawn (page_canvas pg)) (pdf doc))
              = doc_totalCharacters doc
          \<and> (1 \<le> charsPerRowOf options \<and> charsPerRowOf options \<le> 20
               \<and> 1 \<le> rowCountOf options \<and> rowCountOf options \<le> 30
               \<and> pageBreakAfterOf options \<le> charsPerRowOf options * rowCountOf options
               \<longrightarrow> doc_charactersDrawn doc = doc_totalCharacters doc)))
   \<and> (pageBreakAfterOf options' \<le> 0 \<longrightarrow>
        (\<exists>doc. generateMultiPagePDF loadedFonts (JStr s) options' = Inr doc
          \<and> pdf doc = []
          \<and> doc_charactersDrawn doc = 0
          \<and> doc_totalCharacters doc = length (stripWhitespace s)))"
  apply (intro conjI)
    apply (rule copybook_conservation)
   apply (rule impI)
   apply (erule multipage_conservation)
  apply (rule impI)
  apply (simp only: generateMultiPagePDF_nonpositive)
  apply (simp add: length_splitCharacters)
  done

theorem character_conservation_witness:
  "(\<exists>res. generateCopybook Map.empty (JStr exampleText) JUndefined JUndefined JUndefined
             \<lparr>practiceMode = False, guideOpacity = None\<rparr> = Inr res
      \<and> charactersDrawn res = 5 \<and> totalCharacters res = 5)
   \<and> (\<exists>doc. generateMultiPagePDF Map.empty (JStr exampleText) (exampleOptions 2 2 4) = Inr doc
      \<and> doc_charactersDrawn doc = 5 \<and> doc_totalCharacters doc = 5)
   \<and> (\<exists>doc. generateMultiPagePDF Map.empty (JStr exampleText) (exampleOptions 3 2 (- 2)) = Inr doc
      \<and> pdf doc = [] \<and> doc_charactersDrawn doc = 0 \<and> doc_totalCharacters doc = 5)"
proof -
  let ?o = "exampleOptions 2 2 4"
  let ?n = "exampleOptions 3 2 (- 2)"
  note th = character_conservation [of Map.empty exampleText JUndefined JUndefined JUndefined
      "\<lparr>practiceMode = False, guideOpacity = None\<rparr>" ?o ?n]
  have len: "length (stripWhitespace exampleText) = 5" by (simp add: exampleText_stream)
  from th obtain res where res: "generateCopybook Map.empty (JStr exampleText) JUndefined
        JUndefined JUndefined \<lparr>practiceMode = False, guideOpacity = None\<rparr> = Inr res"
    and c: "charsPerRow (layout res) = max 1 (min 20 (parseIntOr (withDefault 15 JUndefined) 15))"
    and r: "rowCount (layout res) = max 1 (min 30 (parseIntOr (withDefault 5 JUndefined) 5))"
    and t: "totalCharacters res = length (stripWhitespace exampleText)"
    and cap: "int (totalCharacters res) \<le> charsPerRow (layout res) * rowCount (layout res)
           \<longrightarrow> charactersDrawn res = totalCharacters res"
    by blast
  have "charsPerRow (layout res) = 15" "rowCount (layout res) = 5"
    by (simp_all add: c r parseIntOr_def withDefault_def)
  with cap have "charactersDrawn res = totalCharacters res" by (simp add: t len)
  then have single: "charactersDrawn res = 5" "totalCharacters res = 5" by (simp_all add: t len)
  have pb: "0 < pageBreakAfterOf ?o" by (simp add: exampleOptions_fields)
  from th pb obtain doc where doc: "generateMultiPagePDF Map.empty (JStr exampleText) ?o = Inr doc"
    and dt: "doc_totalCharacters doc = length (stripWhitespace exampleText)"
    and dcap: "1 \<le> charsPerRowOf ?o \<and> charsPerRowOf ?o \<le> 20
               \<and> 1 \<le> rowCountOf ?o \<and> rowCountOf ?o \<le> 30
               \<and> pageBreakAfterOf ?o \<le> charsPerRowOf ?o * rowCountOf ?o
               \<longrightarrow> doc_charactersDrawn doc = doc_totalCharacters doc"
    by blast
  have "1 \<le> charsPerRowOf ?o \<and> charsPerRowOf ?o \<le> 20
               \<and> 1 \<le> rowCountOf ?o \<and> rowCountOf ?o \<le> 30
               \<and> pageBreakAfterOf ?o \<le> charsPerRowOf ?o * rowCountOf ?o"
    by (simp add: exampleOptions_fields)
  with dcap have "doc_charactersDrawn doc = doc_totalCharacters doc" by blast
  then have multi: "doc_charactersDrawn doc = 5" "doc_totalCharacters doc = 5"
    by (simp_all add: dt len)
  have nb: "pageBreakAfterOf ?n \<le> 0" by (simp add: exampleOptions_fields)
  from th nb obtain doc' where doc': "generateMultiPagePDF Map.empty (JStr exampleText) ?n = Inr doc'"
    and none: "pdf doc' = []" "doc_charactersDrawn doc' = 0"
    and nt: "doc_totalCharacters doc' = length (stripWhitespace exampleText)"
    by blast
  from nt have nt5: "doc_totalCharacters doc' = 5" by (simp only: len)
  from res single doc multi doc' none nt5 show ?thesis by blast
qed

text \<open>
  C3 as the claim words it takes \<open>charsPerRow * rowCount * totalPages\<close> as the capacity
  of the document. A page is cut after \<open>pageBreakAfter\<close> characters, not after the
  capacity of its grid: five characters with three cells per row, one row and four
  characters per page give two pages and a capacity of six, yet the first page draws
  three of its four characters, and \<open>charactersDrawn\<close> is 4 of 5.
\<close>

theorem multipage_capacity_counterexample:
  "map_sum id doc_charactersDrawn
     (generateMultiPagePDF Map.empty (JStr exampleText) (exampleOptions 3 1 4)) = Inr 4
   \<and> map_sum id doc_totalCharacters
     (generateMultiPagePDF Map.empty (JStr exampleText) (exampleOptions 3 1 4)) = Inr 5
   \<and> map_sum id totalPages
     (generateMultiPagePDF Map.empty (JStr exampleText) (exampleOptions 3 1 4)) = Inr (Fin 2)
   \<and> (5::int) \<le> 3 * 1 * 2"
proof -
  let ?o = "exampleOptions 3 1 4"
  have pb: "0 < pageBreakAfterOf ?o" by (simp add: exampleOptions_fields)
  have p4: "nat (pageBreakAfterOf ?o) = 4" by (simp add: exampleOptions_fields)
  have rows4: "actualRowCount 1 3 4 = Fin 1"
    by (simp add: actualRowCount_def minNum_def ceilDiv_def)
  have rows1: "actualRowCount 1 3 (Suc 0) = Fin 1"
    by (simp add: actualRowCount_def minNum_def ceilDiv_def ceiling_eq_iff)
  have d0: "charactersDrawn (pageResult Map.empty (fontTypeOf ?o) 3 1 (opt_practiceMode ?o)
      (guideOpacityOf ?o) (splitCharacters exampleText) 4 0) = 3"
    by (simp add: pageResult_fields exampleText_pages rows4 parseIntOr_def)
  have d1: "charactersDrawn (pageResult Map.empty (fontTypeOf ?o) 3 1 (opt_practiceMode ?o)
      (guideOpacityOf ?o) (splitCharacters exampleText) 4 (Suc 0)) = 1"
    by (simp add: pageResult_fields exampleText_pages rows1 parseIntOr_def)
  have len5: "length (splitCharacters exampleText) = 5"
    by (simp add: exampleText_stream)
  show ?thesis
    unfolding generateMultiPagePDF_string [OF pb] p4 exampleOptions_fields exampleText_pages
    by (simp add: upt_two d0 d1 len5 pageCount_as_div)
qed

subsection \<open>C8: the place of the page image\<close>




end
